theory Spec2Isabelle
  imports Complex_Main "HOL-Library.Word" "HOL-Library.Multiset"
begin

unbundle bit_operations_syntax

section \<open>Numbers of the host language\<close>

text \<open>
  The generator (\<^verbatim>\<open>src/utils/sort-puzzle-generator.ts\<close>) and its adapter
  (\<^verbatim>\<open>src/utils/puzzle-adapter.ts\<close>) compute with JavaScript numbers, which are IEEE-754
  doubles. Counts, sizes and color indices are integers and are modelled as \<open>int\<close> or
  \<open>nat\<close>, arrays as lists; the limits of an engine on the length of an array and on memory
  are not modelled. The 32-bit operators (\<^verbatim>\<open>>>>\<close>, \<^verbatim>\<open>^\<close>, \<^verbatim>\<open>|\<close>, \<^verbatim>\<open>Math.imul\<close>) work on
  \<open>32 word\<close>. Two places leave the range in which doubles are exact integers: the
  generator state \<^verbatim>\<open>t\<close> of \<^verbatim>\<open>seededRng\<close>, which grows by \<^verbatim>\<open>0x6D2B79F5\<close> at every call and
  is never reduced, and the product \<^verbatim>\<open>rng() * n\<close>. Both are rounded to the nearest double,
  ties to even, which \<open>toDouble\<close> computes for a natural number.
\<close>

type_synonym u32 = "32 word"

fun bitLength :: "nat \<Rightarrow> nat" where
  "bitLength n = (if n = 0 then 0 else Suc (bitLength (n div 2)))"

declare bitLength.simps [simp del]

text \<open>
  \<open>toDouble m\<close> is the double nearest to the natural number \<open>m\<close> (53 significant bits,
  round half to even). It is again a natural number.
\<close>

definition toDouble :: "nat \<Rightarrow> nat" where
  "toDouble m =
     (if m < 2 ^ 53 then m
      else let s = bitLength m - 53;
               q = m div 2 ^ s;
               r = m mod 2 ^ s;
               h = 2 ^ (s - 1)
           in (if h < r \<or> (r = h \<and> odd q) then q + 1 else q) * 2 ^ s)"

section \<open>RNG: mulberry32\<close>

text \<open>
  \<^verbatim>\<open>seededRng(seed)\<close> returns a closure over the variable \<^verbatim>\<open>t\<close>, initially
  \<^verbatim>\<open>seed >>> 0\<close>. The closure is modelled by its state \<open>t\<close> and a step function that
  returns the new state with the 32-bit numerator \<open>k\<close> of the result \<open>k / 4294967296\<close>.
\<close>

definition seededRng :: "u32 \<Rightarrow> nat" where
  "seededRng seed = unat seed"

definition rngNext :: "nat \<Rightarrow> nat \<times> u32" where
  "rngNext t =
     (let t' = toDouble (t + 0x6D2B79F5);
          tw = (word_of_nat t' :: u32);
          r = (tw XOR drop_bit 15 tw) * (1 OR tw);
          r' = r XOR (r + (r XOR drop_bit 7 r) * (61 OR r))
      in (t', r' XOR drop_bit 14 r'))"

text \<open>
  \<^verbatim>\<open>Math.floor(rng() * n)\<close> for a natural number \<open>n\<close> that is a double: the exact
  product is \<open>k * n / 2^32\<close>, and rounding to a double commutes with the scaling by \<open>2^32\<close>.
  The result is below \<open>n\<close> (lemma \<open>floorMul_less\<close>), so every index computed this way lies
  inside its array.
\<close>

definition floorMul :: "u32 \<Rightarrow> nat \<Rightarrow> nat" where
  "floorMul k n = toDouble (unat k * n) div 2 ^ 32"

text \<open>
  A seed is a number or a string. \<^verbatim>\<open>seed >>> 0\<close> on a number is ToUint32: not-a-number and
  the infinities give 0, a finite number is truncated towards zero and reduced modulo
  \<open>2^32\<close>. A string is a sequence of UTF-16 code units (\<^verbatim>\<open>charCodeAt\<close>).
\<close>

datatype jsNumber = Finite rat | NaN | PosInfinity | NegInfinity

fun toUint32 :: "jsNumber \<Rightarrow> u32" where
  "toUint32 (Finite q) = word_of_int (if 0 \<le> q then \<lfloor>q\<rfloor> else - \<lfloor>- q\<rfloor>)"
| "toUint32 NaN = 0"
| "toUint32 PosInfinity = 0"
| "toUint32 NegInfinity = 0"

datatype seedValue = SeedNumber jsNumber | SeedString "16 word list"

text \<open>
  \<open>rnd\<close> stands for the value of \<^verbatim>\<open>(Math.random() * 2 ** 31) >>> 0\<close>, the only input of
  the generator that is not part of its configuration.
\<close>

fun makeSeedFrom :: "u32 \<Rightarrow> seedValue option \<Rightarrow> u32" where
  "makeSeedFrom rnd None = rnd"
| "makeSeedFrom rnd (Some (SeedNumber x)) = toUint32 x"
| "makeSeedFrom rnd (Some (SeedString s)) =
     foldl (\<lambda>h c. (h XOR ucast c) * 16777619) 2166136261 s"

section \<open>Fisher-Yates shuffle\<close>

text \<open>
  \<^verbatim>\<open>for (let i = n; i > 0; i--) { const j = Math.floor(rng() * (i + 1)); swap(i, j) }\<close>,
  the loop shared by \<^verbatim>\<open>autoDistributeTubes\<close>, \<^verbatim>\<open>createPuzzle\<close> and \<^verbatim>\<open>selectColors\<close>.
  The destructuring swap reads both cells before it writes.
\<close>

fun fisherYates :: "nat \<Rightarrow> 'a list \<Rightarrow> nat \<Rightarrow> 'a list \<times> nat" where
  "fisherYates i xs t =
     (if 0 < i then
        let (t', k) = rngNext t;
            j = floorMul k (i + 1)
        in fisherYates (i - 1) (xs[i := xs ! j, j := xs ! i]) t'
      else (xs, t))"

declare fisherYates.simps [simp del]

section \<open>Auto distribute tubes among colors\<close>

datatype error =
    InvalidConfig
  | PerColorTubesLength
  | PerColorTubesSum
  | PerColorTubesNonPositive
  | TubeCountBelowColorCount
  | InternalMismatch

text \<open>
  One error for each of the six \<^verbatim>\<open>throw new Error(...)\<close> statements of the generator: the
  entry check of the three sizes, the three checks of an explicit \<^verbatim>\<open>perColorTubes\<close>, the check
  of \<^verbatim>\<open>autoDistributeTubes\<close>, and the internal check of the number of tubes built.
\<close>

text \<open>
  \<^verbatim>\<open>while (remaining > 0) { idx = Math.floor(rng() * colorCount); result[idx]++; remaining--; }\<close>
\<close>

function distributeRemaining :: "int \<Rightarrow> int \<Rightarrow> int list \<Rightarrow> nat \<Rightarrow> int list \<times> nat" where
  "distributeRemaining remaining colorCount result t =
     (if 0 < remaining then
        let (t', k) = rngNext t;
            idx = floorMul k (nat colorCount)
        in distributeRemaining (remaining - 1) colorCount (result[idx := result ! idx + 1]) t'
      else (result, t))"
  by pat_completeness auto
termination
  by (relation "measure (\<lambda>(remaining, colorCount, result, t). nat remaining)") auto

declare distributeRemaining.simps [simp del]

text \<open>
  \<^verbatim>\<open>for (let i = 0; i < colorCount - 1; i++) { take = Math.floor(rng() * (remaining + 1));
  result[i] = take; remaining -= take; }\<close>
\<close>

function cutLoop :: "int \<Rightarrow> int \<Rightarrow> int \<Rightarrow> int list \<Rightarrow> nat \<Rightarrow> int list \<times> int \<times> nat" where
  "cutLoop i colorCount remaining result t =
     (if i < colorCount - 1 then
        let (t', k) = rngNext t;
            take = int (floorMul k (nat (remaining + 1)))
        in cutLoop (i + 1) colorCount (remaining - take) (result[nat i := take]) t'
      else (result, remaining, t))"
  by pat_completeness auto
termination
  by (relation "measure (\<lambda>(i, colorCount, remaining, result, t). nat (colorCount - 1 - i))") auto

declare cutLoop.simps [simp del]

definition autoDistributeTubes :: "int \<Rightarrow> int \<Rightarrow> nat \<Rightarrow> bool \<Rightarrow> error + int list \<times> nat" where
  "autoDistributeTubes colorCount tubeCount t allowZero =
     (if \<not> allowZero \<and> tubeCount < colorCount then Inl TubeCountBelowColorCount
      else
        let result = replicate (nat colorCount) (0 :: int)
        in if \<not> allowZero then
             Inr (distributeRemaining (tubeCount - colorCount) colorCount
                    (map (\<lambda>_. 1) result) t)
           else
             let (result', remaining, t') = cutLoop 0 colorCount tubeCount result t
             in Inr (fisherYates (nat (colorCount - 1))
                       (result'[nat (colorCount - 1) := remaining]) t'))"

section \<open>Main export: createPuzzle\<close>

record GeneratorConfig =
  colorCount :: int
  tubeCount :: int
  tubeSize :: int
  perColorTubes :: "int list option"
  shuffleSteps :: "int option"
  seed :: "seedValue option"
  allowZeroTubesForColor :: "bool option"
  emptyTubeCount :: "int option"

text \<open>
  \<^verbatim>\<open>shuffleSteps\<close> is bound by \<^verbatim>\<open>createPuzzle\<close> and never read. The field
  \<^verbatim>\<open>perColorTubes\<close> of the result is \<open>perColorTubesUsed\<close> here, the name being taken by the
  field of the configuration.
\<close>

record PuzzleResult =
  tubes :: "int list list"
  perColorTubesUsed :: "int list"
  seedUsed :: u32

text \<open>
  Step 1 of \<^verbatim>\<open>createPuzzle\<close>: an explicit \<^verbatim>\<open>perColorTubes\<close> is validated and copied, otherwise
  the tubes are distributed at random. An array is truthy even when empty, so the test
  \<^verbatim>\<open>if (perColorTubes)\<close> asks whether the field is present.
\<close>

definition chooseDistribution ::
  "int \<Rightarrow> int \<Rightarrow> int list option \<Rightarrow> bool \<Rightarrow> nat \<Rightarrow> error + int list \<times> nat" where
  "chooseDistribution colorCount' tubeCount' perColorTubes' allowZero t =
     (case perColorTubes' of
        Some p \<Rightarrow>
          if int (length p) \<noteq> colorCount' then Inl PerColorTubesLength
          else if sum_list p \<noteq> tubeCount' then Inl PerColorTubesSum
          else if \<not> allowZero \<and> list_ex (\<lambda>v. v \<le> 0) p then Inl PerColorTubesNonPositive
          else Inr (p, t)
      | None \<Rightarrow> autoDistributeTubes colorCount' tubeCount' t allowZero)"

text \<open>
  Step 2: the solved state. For a count that is zero or negative the inner loop
  \<^verbatim>\<open>for (let i = 0; i < cnt; i++)\<close> does not run.
\<close>

definition buildSolved :: "int \<Rightarrow> int \<Rightarrow> int list \<Rightarrow> int list list" where
  "buildSolved colorCount' tubeSize' distribution =
     concat (map (\<lambda>c. replicate (nat (distribution ! c)) (replicate (nat tubeSize') (int c)))
                 [0..<nat colorCount'])"

text \<open>Step 3: shuffle, refill the tubes in order, test the diversity, at most 100 times.\<close>

definition maxShuffleAttempts :: nat where
  "maxShuffleAttempts = 100"

definition redistribute :: "nat \<Rightarrow> nat \<Rightarrow> int list \<Rightarrow> int list list" where
  "redistribute tubeCount' tubeSize' allBalls =
     map (\<lambda>t. map (\<lambda>b. allBalls ! (t * tubeSize' + b)) [0..<tubeSize']) [0..<tubeCount']"

definition colorDiversityMet :: "int \<Rightarrow> int list list \<Rightarrow> bool" where
  "colorDiversityMet minColorsPerTube finalTubes =
     list_all (\<lambda>tube. \<not> int (length (remdups tube)) < minColorsPerTube) finalTubes"

function shuffleLoop ::
  "nat \<Rightarrow> nat \<Rightarrow> int \<Rightarrow> nat \<Rightarrow> int list \<Rightarrow> nat \<Rightarrow> int list list \<Rightarrow> int list list \<times> nat \<times> nat" where
  "shuffleLoop tubeCount' tubeSize' minColorsPerTube attemptCount allBalls t finalTubes =
     (if attemptCount < maxShuffleAttempts then
        let (allBalls', t') = fisherYates (length allBalls - 1) allBalls t;
            finalTubes' = redistribute tubeCount' tubeSize' allBalls'
        in if colorDiversityMet minColorsPerTube finalTubes'
           then (finalTubes', attemptCount + 1, t')
           else shuffleLoop tubeCount' tubeSize' minColorsPerTube (attemptCount + 1)
                  allBalls' t' finalTubes'
      else (finalTubes, attemptCount, t))"
  by pat_completeness auto
termination
  by (relation "measure (\<lambda>(tubeCount', tubeSize', minColorsPerTube, attemptCount, rest).
                            maxShuffleAttempts - attemptCount)") auto

declare shuffleLoop.simps [simp del]

text \<open>
  The balls and the generator state after \<open>n\<close> passes of the shuffle. The array
  \<^verbatim>\<open>allBalls\<close> is shuffled in place, so every pass starts from the result of the one before.
\<close>

fun shufflePasses :: "nat \<Rightarrow> int list \<Rightarrow> nat \<Rightarrow> int list \<times> nat" where
  "shufflePasses 0 allBalls t = (allBalls, t)"
| "shufflePasses (Suc n) allBalls t =
     (let (allBalls', t') = shufflePasses n allBalls t
      in fisherYates (length allBalls' - 1) allBalls' t')"

definition createPuzzle :: "u32 \<Rightarrow> GeneratorConfig \<Rightarrow> error + PuzzleResult" where
  "createPuzzle rnd config =
     (let allowZero = (case allowZeroTubesForColor config of None \<Rightarrow> False | Some b \<Rightarrow> b)
      in if tubeSize config \<le> 0 \<or> tubeCount config \<le> 0 \<or> colorCount config \<le> 0
         then Inl InvalidConfig
         else
           let seedUsed' = makeSeedFrom rnd (seed config);
               t0 = seededRng seedUsed'
           in case chooseDistribution (colorCount config) (tubeCount config)
                     (perColorTubes config) allowZero t0 of
                Inl e \<Rightarrow> Inl e
              | Inr (distribution, t1) \<Rightarrow>
                  let emptyTubes = (case emptyTubeCount config of None \<Rightarrow> 0 | Some n \<Rightarrow> n);
                      solved = buildSolved (colorCount config) (tubeSize config) distribution
                  in if int (length solved) \<noteq> tubeCount config then Inl InternalMismatch
                     else
                       let allBalls = concat solved;
                           minColorsPerTube = min 3 (colorCount config);
                           (finalTubes, attemptCount, t2) =
                             shuffleLoop (nat (tubeCount config)) (nat (tubeSize config))
                               minColorsPerTube 0 allBalls t1 []
                       in Inr \<lparr> tubes = finalTubes @ replicate (nat emptyTubes) [],
                                perColorTubesUsed = distribution,
                                seedUsed = seedUsed' \<rparr>)"

section \<open>Puzzle adapter\<close>

datatype BallColor =
    BROWN | ORANGE | LIGHT_PURPLE | GRAY | PINK | PURPLE
  | RED | GREEN | FLUORESCENT_GREEN | BLUE | CYAN | YELLOW

definition BALL_COLORS :: "BallColor list" where
  "BALL_COLORS =
     [BROWN, ORANGE, LIGHT_PURPLE, GRAY, PINK, PURPLE,
      RED, GREEN, FLUORESCENT_GREEN, BLUE, CYAN, YELLOW]"

definition TUBE_CAPACITY :: int where
  "TUBE_CAPACITY = 8"

definition TUBE_COUNT :: int where
  "TUBE_COUNT = 14"

text \<open>
  The adapter's \<^verbatim>\<open>shuffleMultiplier\<close> is left at its default 1.0: it only scales
  \<^verbatim>\<open>shuffleSteps\<close>, which \<^verbatim>\<open>createPuzzle\<close> binds and never reads. The fields of the two
  records that share a name with a field of the generator carry the prefix \<open>adapter\<close>.
\<close>

record PuzzleAdapterConfig =
  difficulty :: int
  adapterEmptyTubeCount :: "int option"
  adapterSeed :: "seedValue option"

record PuzzleAdapterResult =
  adapterTubes :: "BallColor option list list"
  adapterSeedUsed :: u32
  adapterPerColorTubes :: "int list"
  usedColors :: "BallColor list"

text \<open>
  \<^verbatim>\<open>a % b\<close> takes the sign of the dividend; \<^verbatim>\<open>Math.floor(a / b)\<close> is the floor of the
  quotient. With \<^verbatim>\<open>colorCount\<close> zero or negative the loop of
  \<^verbatim>\<open>calculateColorDistribution\<close> does not run, whatever the two values are.
\<close>

definition jsRemainder :: "int \<Rightarrow> int \<Rightarrow> int" where
  "jsRemainder a b = sgn a * (\<bar>a\<bar> mod \<bar>b\<bar>)"

definition calculateColorDistribution :: "int \<Rightarrow> int \<Rightarrow> int list" where
  "calculateColorDistribution colorCount' filledTubes =
     (let tubesPerColor = filledTubes div colorCount';
          extraTubes = jsRemainder filledTubes colorCount'
      in map (\<lambda>i. if int i < extraTubes then tubesPerColor + 1 else tubesPerColor)
             [0..<nat colorCount'])"

text \<open>The derived parameters of \<^verbatim>\<open>generatePuzzleWithAdapter\<close>, one definition per constant.\<close>

definition adapterColorCount :: "PuzzleAdapterConfig \<Rightarrow> int" where
  "adapterColorCount config = min 12 (max 3 (difficulty config + 2))"

definition actualEmptyTubes :: "PuzzleAdapterConfig \<Rightarrow> int" where
  "actualEmptyTubes config =
     min 6 (max 1 (case adapterEmptyTubeCount config of None \<Rightarrow> 2 | Some n \<Rightarrow> n))"

definition filledTubes :: "PuzzleAdapterConfig \<Rightarrow> int" where
  "filledTubes config = TUBE_COUNT - actualEmptyTubes config"

definition actualColorCount :: "PuzzleAdapterConfig \<Rightarrow> int" where
  "actualColorCount config = min (adapterColorCount config) (filledTubes config)"

definition generatorConfig :: "PuzzleAdapterConfig \<Rightarrow> GeneratorConfig" where
  "generatorConfig config =
     \<lparr> colorCount = actualColorCount config,
       tubeCount = filledTubes config,
       tubeSize = TUBE_CAPACITY,
       perColorTubes =
         Some (calculateColorDistribution (actualColorCount config) (filledTubes config)),
       shuffleSteps = Some (200 + difficulty config * 20),
       seed = adapterSeed config,
       allowZeroTubesForColor = Some False,
       emptyTubeCount = Some (actualEmptyTubes config) \<rparr>"

text \<open>
  \<^verbatim>\<open>selectColors\<close> repeats the generator of \<^verbatim>\<open>seededRng\<close> inline and shuffles a copy of
  \<^verbatim>\<open>BALL_COLORS\<close>. An index outside an array reads \<^verbatim>\<open>undefined\<close>, here \<open>None\<close>.
\<close>

definition selectColors :: "int \<Rightarrow> u32 \<Rightarrow> BallColor list" where
  "selectColors colorCount' seed' =
     take (nat colorCount')
       (fst (fisherYates (length BALL_COLORS - 1) BALL_COLORS (unat seed')))"

definition colorAt :: "BallColor list \<Rightarrow> int \<Rightarrow> BallColor option" where
  "colorAt colors colorIndex =
     (if 0 \<le> colorIndex \<and> nat colorIndex < length colors
      then Some (colors ! nat colorIndex) else None)"

text \<open>
  The adapter logs under \<^verbatim>\<open>import.meta.env.DEV\<close>, read without a guard, where the generator
  reads \<^verbatim>\<open>import.meta.env?.DEV\<close>. The bundler defines \<^verbatim>\<open>import.meta.env\<close>; where the module is
  loaded without it, as by \<^verbatim>\<open>scripts/generate-puzzles.ts\<close> under Node, \<^verbatim>\<open>import.meta.env\<close> is
  \<^verbatim>\<open>undefined\<close> and the read throws a \<^verbatim>\<open>TypeError\<close>. The environment is the first argument of
  the model: \<open>None\<close> when \<^verbatim>\<open>import.meta.env\<close> is undefined, \<open>Some dev\<close> when it is an object
  whose \<^verbatim>\<open>DEV\<close> is \<open>dev\<close>. What is logged does not touch the result. The adapter catches
  nothing, so an error of \<^verbatim>\<open>createPuzzle\<close> is passed on. The distribution that
  \<^verbatim>\<open>calculateColorDistribution\<close> returns is the \<^verbatim>\<open>perColorTubes\<close> of \<open>generatorConfig\<close>.
\<close>

datatype adapterError = TypeError | GeneratorError error

definition readDEV :: "bool option \<Rightarrow> adapterError + bool" where
  "readDEV env = (case env of None \<Rightarrow> Inl TypeError | Some dev \<Rightarrow> Inr dev)"

text \<open>
  \<^verbatim>\<open>calculateColorDistribution\<close> with its check at the end:
  \<^verbatim>\<open>sum !== filledTubes && import.meta.env.DEV\<close> reads the environment only when the sum is
  wrong.
\<close>

definition checkedColorDistribution :: "bool option \<Rightarrow> int \<Rightarrow> int \<Rightarrow> adapterError + int list" where
  "checkedColorDistribution env colorCount' filledTubes' =
     (let distribution = calculateColorDistribution colorCount' filledTubes'
      in if sum_list distribution \<noteq> filledTubes'
         then (case readDEV env of Inl e \<Rightarrow> Inl e | Inr dev \<Rightarrow> Inr distribution)
         else Inr distribution)"

definition generatePuzzleWithAdapter ::
  "bool option \<Rightarrow> u32 \<Rightarrow> PuzzleAdapterConfig \<Rightarrow> adapterError + PuzzleAdapterResult" where
  "generatePuzzleWithAdapter env rnd config =
     (case checkedColorDistribution env (actualColorCount config) (filledTubes config) of
        Inl e \<Rightarrow> Inl e
      | Inr perColorTubes' \<Rightarrow>
     (case readDEV env of
        Inl e \<Rightarrow> Inl e
      | Inr dev \<Rightarrow>
     (case createPuzzle rnd (generatorConfig config) of
        Inl e \<Rightarrow> Inl (GeneratorError e)
      | Inr result \<Rightarrow>
          let usedColors' = selectColors (adapterColorCount config) (seedUsed result);
              tubeContents = map (map (colorAt usedColors')) (tubes result)
          in (case readDEV env of
                Inl e \<Rightarrow> Inl e
              | Inr dev' \<Rightarrow>
                  Inr \<lparr> adapterTubes = tubeContents,
                         adapterSeedUsed = seedUsed result,
                         adapterPerColorTubes = perColorTubesUsed result,
                         usedColors = usedColors' \<rparr>))))"

subsection \<open>validatePuzzle\<close>

text \<open>
  The messages pushed to \<^verbatim>\<open>errors\<close> are modelled by their kind and the numbers they
  print. \<^verbatim>\<open>colorCounts\<close> is a \<^verbatim>\<open>Map\<close>, iterated in insertion order: an association list
  in which \<^verbatim>\<open>set\<close> overwrites a present key in place and appends a new one.
\<close>

datatype validationError =
    TubeCountWrong nat
  | TubeCapacityWrong nat
  | EmptyTubeCountWrong nat
  | ColorCountWrong BallColor nat

record validationResult =
  valid :: bool
  errors :: "validationError list"

fun mapSet :: "('k \<times> 'v) list \<Rightarrow> 'k \<Rightarrow> 'v \<Rightarrow> ('k \<times> 'v) list" where
  "mapSet [] k v = [(k, v)]"
| "mapSet ((k', v') # m) k v = (if k' = k then (k, v) # m else (k', v') # mapSet m k v)"

fun countBalls :: "(BallColor \<times> nat) list \<Rightarrow> BallColor list \<Rightarrow> (BallColor \<times> nat) list" where
  "countBalls colorCounts [] = colorCounts"
| "countBalls colorCounts (ball # tube) =
     countBalls
       (mapSet colorCounts ball
          ((case map_of colorCounts ball of None \<Rightarrow> 0 | Some n \<Rightarrow> n) + 1))
       tube"

fun scanTubes ::
  "BallColor list list \<Rightarrow> validationError list \<times> (BallColor \<times> nat) list \<times> nat \<times> nat
     \<Rightarrow> validationError list \<times> (BallColor \<times> nat) list \<times> nat \<times> nat" where
  "scanTubes [] state = state"
| "scanTubes (tube # rest) (errs, colorCounts, filledTubeCount, emptyTubeCount') =
     (if length tube = 0 then
        scanTubes rest (errs, colorCounts, filledTubeCount, emptyTubeCount' + 1)
      else if int (length tube) = TUBE_CAPACITY then
        scanTubes rest (errs, countBalls colorCounts tube, filledTubeCount + 1, emptyTubeCount')
      else
        scanTubes rest
          (errs @ [TubeCapacityWrong (length tube)], colorCounts, filledTubeCount,
           emptyTubeCount'))"

definition validatePuzzle :: "BallColor list list \<Rightarrow> validationResult" where
  "validatePuzzle tubes' =
     (let errors0 =
            (if int (length tubes') \<noteq> TUBE_COUNT then [TubeCountWrong (length tubes')] else []);
          (errors1, colorCounts, filledTubeCount, emptyTubeCount') =
            scanTubes tubes' (errors0, [], 0, 0);
          errors2 =
            (if emptyTubeCount' \<noteq> 2 then errors1 @ [EmptyTubeCountWrong emptyTubeCount']
             else errors1);
          errors3 =
            errors2 @
            map (\<lambda>(color, count). ColorCountWrong color count)
              (filter (\<lambda>(color, count). int count mod TUBE_CAPACITY \<noteq> 0) colorCounts)
      in \<lparr> valid = (length errors3 = 0), errors = errors3 \<rparr>)"

section \<open>Puzzle cache: the memoised pregeneration promise\<close>

text \<open>
  \<^verbatim>\<open>puzzleCache\<close> keeps one module variable \<^verbatim>\<open>_pregeneratePromise\<close>, initially
  \<^verbatim>\<open>null\<close>. \<^verbatim>\<open>pregeneratePuzzles()\<close> calls \<^verbatim>\<open>getOutputConfigAsync()\<close>, which starts the
  work, and stores the promise of the whole chain in the variable, whatever was stored
  before; \<^verbatim>\<open>waitForPregenerate()\<close> returns the stored promise and calls
  \<^verbatim>\<open>pregeneratePuzzles()\<close> first when there is none. Both functions are exported, and both
  run to their end without a suspension point, so the calls of any number of callers form a
  sequence. A promise is modelled by its identity, the number of chains started before it;
  \<open>started\<close> counts the chains. The body of a chain writes to the cache map only and never
  to the variable, so its progress is the event \<open>Settle\<close>, which records the promise as
  settled.
\<close>

record cacheState =
  pregeneratePromise :: "nat option"
  started :: nat
  settled :: "nat list"

definition initialCacheState :: cacheState where
  "initialCacheState = \<lparr> pregeneratePromise = None, started = 0, settled = [] \<rparr>"

definition pregeneratePuzzles :: "cacheState \<Rightarrow> cacheState" where
  "pregeneratePuzzles s = s\<lparr> pregeneratePromise := Some (started s), started := started s + 1 \<rparr>"

definition waitForPregenerate :: "cacheState \<Rightarrow> nat option \<times> cacheState" where
  "waitForPregenerate s =
     (case pregeneratePromise s of
        Some p \<Rightarrow> (Some p, s)
      | None \<Rightarrow> (let s' = pregeneratePuzzles s in (pregeneratePromise s', s')))"

datatype cacheEvent = PregeneratePuzzles | WaitForPregenerate | Settle nat

text \<open>
  \<open>runEvents\<close> plays a sequence of events and collects the promises handed to the
  callers of \<^verbatim>\<open>waitForPregenerate\<close>, in order.
\<close>

fun runEvents :: "cacheEvent list \<Rightarrow> cacheState \<Rightarrow> nat option list \<times> cacheState" where
  "runEvents [] s = ([], s)"
| "runEvents (PregeneratePuzzles # es) s = runEvents es (pregeneratePuzzles s)"
| "runEvents (WaitForPregenerate # es) s =
     (let (p, s') = waitForPregenerate s;
          (ps, s'') = runEvents es s'
      in (p # ps, s''))"
| "runEvents (Settle p # es) s = runEvents es (s\<lparr> settled := settled s @ [p] \<rparr>)"

text \<open>
  Three sequences of calls. In \<open>waitingEvents\<close> three callers ask for the promise, two of
  them before the chain settles, and nobody calls \<^verbatim>\<open>pregeneratePuzzles()\<close> directly. The other
  two are made while no chain has settled. \<open>startupEvents\<close> is the start of the application:
  \<^verbatim>\<open>main.tsx\<close> calls \<^verbatim>\<open>pregeneratePuzzles()\<close> when the module is loaded, the mount effect of
  \<^verbatim>\<open>App\<close> calls it again, and two callers ask for the promise. In \<open>restartEvents\<close> the second
  direct call falls between the two callers.
\<close>

definition waitingEvents :: "cacheEvent list" where
  "waitingEvents = [WaitForPregenerate, WaitForPregenerate, Settle 0, WaitForPregenerate]"

definition startupEvents :: "cacheEvent list" where
  "startupEvents = [PregeneratePuzzles, PregeneratePuzzles, WaitForPregenerate, WaitForPregenerate]"

definition restartEvents :: "cacheEvent list" where
  "restartEvents = [PregeneratePuzzles, WaitForPregenerate, PregeneratePuzzles, WaitForPregenerate]"

section \<open>Auxiliary notions for the properties\<close>

text \<open>The defaults of the two optional fields that \<^verbatim>\<open>createPuzzle\<close> reads.\<close>

definition allowZeroOf :: "GeneratorConfig \<Rightarrow> bool" where
  "allowZeroOf config = (case allowZeroTubesForColor config of None \<Rightarrow> False | Some b \<Rightarrow> b)"

text \<open>
  The object returned by \<^verbatim>\<open>createPuzzle\<close> once steps 1 and 2 have passed with the
  distribution \<open>d\<close> and the generator state \<open>t1\<close>.
\<close>

definition resultOf :: "u32 \<Rightarrow> GeneratorConfig \<Rightarrow> int list \<Rightarrow> nat \<Rightarrow> PuzzleResult" where
  "resultOf rnd config d t1 =
     \<lparr> tubes =
         fst (shuffleLoop (nat (tubeCount config)) (nat (tubeSize config))
                (min 3 (colorCount config)) 0
                (concat (buildSolved (colorCount config) (tubeSize config) d)) t1 [])
         @ replicate (nat (case emptyTubeCount config of None \<Rightarrow> 0 | Some n \<Rightarrow> n)) [],
       perColorTubesUsed = d,
       seedUsed = makeSeedFrom rnd (seed config) \<rparr>"

text \<open>
  What the retry loop, entered with \<open>a\<close> attempts made, returns in \<open>R\<close>: the number of
  attempts made is larger than \<open>a\<close> and at most the budget; the tubes and the generator state
  are those of the last pass; the diversity test holds unless the budget is exhausted, and it
  failed at every earlier pass.
\<close>

definition loopSpec ::
  "nat \<Rightarrow> nat \<Rightarrow> int \<Rightarrow> nat \<Rightarrow> int list \<Rightarrow> nat \<Rightarrow> int list list \<times> nat \<times> nat \<Rightarrow> bool" where
  "loopSpec n s m a xs t R \<longleftrightarrow>
     a < fst (snd R) \<and> fst (snd R) \<le> maxShuffleAttempts
   \<and> fst R = redistribute n s (fst (shufflePasses (fst (snd R) - a) xs t))
   \<and> snd (snd R) = snd (shufflePasses (fst (snd R) - a) xs t)
   \<and> (fst (snd R) < maxShuffleAttempts \<longrightarrow> colorDiversityMet m (fst R))
   \<and> (\<forall>i. 1 \<le> i \<and> i < fst (snd R) - a \<longrightarrow>
         \<not> colorDiversityMet m (redistribute n s (fst (shufflePasses i xs t))))"

text \<open>The configuration of the concrete example of the specification.\<close>

definition exampleConfig :: GeneratorConfig where
  "exampleConfig =
     \<lparr> colorCount = 3, tubeCount = 6, tubeSize = 4, perColorTubes = None,
       shuffleSteps = None, seed = Some (SeedNumber (Finite 42)),
       allowZeroTubesForColor = None, emptyTubeCount = Some 2 \<rparr>"

text \<open>
  The condition under which, by the specification, \<^verbatim>\<open>createPuzzle\<close> raises a configuration
  error, in the words of the specification.
\<close>

definition claimedConfigError :: "GeneratorConfig \<Rightarrow> bool" where
  "claimedConfigError config \<longleftrightarrow>
     tubeSize config \<le> 0 \<or> tubeCount config \<le> 0 \<or> colorCount config \<le> 0
   \<or> (case perColorTubes config of
         Some p \<Rightarrow>
           int (length p) \<noteq> colorCount config \<or> sum_list p \<noteq> tubeCount config
         \<or> (list_ex (\<lambda>v. v \<le> 0) p \<and> \<not> allowZeroOf config)
       | None \<Rightarrow> \<not> allowZeroOf config \<and> tubeCount config < colorCount config)"

text \<open>
  An explicit \<^verbatim>\<open>perColorTubes\<close> with a negative entry, supplied together with
  \<^verbatim>\<open>allowZeroTubesForColor\<close>: the validation lets it pass.
\<close>

definition negativeEntryAllowed :: "GeneratorConfig \<Rightarrow> bool" where
  "negativeEntryAllowed config \<longleftrightarrow>
     allowZeroOf config
   \<and> (case perColorTubes config of Some p \<Rightarrow> list_ex (\<lambda>v. v < 0) p | None \<Rightarrow> False)"

text \<open>
  The largest length of an array is \<open>2 ^ 32 - 1\<close>: \<^verbatim>\<open>new Array(n)\<close> and a \<^verbatim>\<open>push\<close> beyond it throw
  a \<^verbatim>\<open>RangeError\<close>. The model counts with integers and builds lists of any length, so it
  follows the code as long as every array stays within that length: the array of
  \<^verbatim>\<open>colorCount\<close> counters, a tube of \<^verbatim>\<open>tubeSize\<close> balls, the \<^verbatim>\<open>tubeCount * tubeSize\<close> balls
  collected for the shuffle, the filled tubes with the empty ones, and the tubes built from
  an explicit \<^verbatim>\<open>perColorTubes\<close>, at most the sum of the absolute values of its entries. That
  last bound also keeps the sum that \<^verbatim>\<open>reduce\<close> computes exact.
\<close>

definition arrayLimit :: int where
  "arrayLimit = 2 ^ 32 - 1"

definition withinArrayLimits :: "GeneratorConfig \<Rightarrow> bool" where
  "withinArrayLimits config \<longleftrightarrow>
     colorCount config \<le> arrayLimit
   \<and> tubeSize config \<le> arrayLimit
   \<and> tubeCount config * tubeSize config \<le> arrayLimit
   \<and> tubeCount config + (case emptyTubeCount config of None \<Rightarrow> 0 | Some n \<Rightarrow> n) \<le> arrayLimit
   \<and> (case perColorTubes config of
         None \<Rightarrow> True
       | Some p \<Rightarrow> sum_list (map abs p) \<le> arrayLimit)"

definition negativeEntryConfig :: GeneratorConfig where
  "negativeEntryConfig =
     \<lparr> colorCount = 2, tubeCount = 2, tubeSize = 1, perColorTubes = Some [3, - 1],
       shuffleSteps = None, seed = Some (SeedNumber (Finite 1)),
       allowZeroTubesForColor = Some True, emptyTubeCount = None \<rparr>"

text \<open>
  A configuration in which no tube can hold three colors: three tubes of one ball each.
\<close>

definition singleBallConfig :: GeneratorConfig where
  "singleBallConfig =
     \<lparr> colorCount = 3, tubeCount = 3, tubeSize = 1, perColorTubes = Some [1, 1, 1],
       shuffleSteps = None, seed = Some (SeedNumber (Finite 7)),
       allowZeroTubesForColor = None, emptyTubeCount = None \<rparr>"

text \<open>\<open>clamp x lo hi\<close> in the words of the specification: \<open>x\<close> limited to the range from \<open>lo\<close> to \<open>hi\<close>.\<close>

definition clamp :: "int \<Rightarrow> int \<Rightarrow> int \<Rightarrow> int" where
  "clamp x lo hi = (if x < lo then lo else if hi < x then hi else x)"

text \<open>The even split of the specification: \<open>filled\<close> tubes over \<open>colors\<close> colors.\<close>

definition evenSplit :: "int \<Rightarrow> int \<Rightarrow> int list" where
  "evenSplit colors filled =
     map (\<lambda>i. filled div colors + (if int i < filled mod colors then 1 else 0)) [0..<nat colors]"

definition adapterConfig :: "int \<Rightarrow> int option \<Rightarrow> PuzzleAdapterConfig" where
  "adapterConfig d e =
     \<lparr> difficulty = d, adapterEmptyTubeCount = e, adapterSeed = Some (SeedString [0x61]) \<rparr>"

text \<open>
  The first call of \<^verbatim>\<open>scripts/generate-puzzles.ts\<close>:
  \<^verbatim>\<open>generatePuzzleWithAdapter({ difficulty: 1, emptyTubeCount: 2 })\<close>, no seed.
\<close>

definition scriptConfig :: PuzzleAdapterConfig where
  "scriptConfig = \<lparr> difficulty = 1, adapterEmptyTubeCount = Some 2, adapterSeed = None \<rparr>"

text \<open>Two boards: twelve full tubes of one color with two empty tubes, and a single ball.\<close>

definition solvedBoard :: "BallColor list list" where
  "solvedBoard = replicate 12 (replicate 8 RED) @ [[], []]"

definition singleBallBoard :: "BallColor list list" where
  "singleBallBoard = [[RED]]"

text \<open>A small configuration: two colors, two tubes of two balls, one empty tube, seed 2.\<close>

definition smallConfig :: GeneratorConfig where
  "smallConfig =
     \<lparr> colorCount = 2, tubeCount = 2, tubeSize = 2, perColorTubes = Some [1, 1],
       shuffleSteps = None, seed = Some (SeedNumber (Finite 2)),
       allowZeroTubesForColor = None, emptyTubeCount = Some 1 \<rparr>"

section \<open>Lemmas\<close>

subsection \<open>Rounding and the random index\<close>

lemma bitLength_upper: "n < 2 ^ bitLength n"
proof (induction n rule: bitLength.induct)
  case (1 n)
  show ?case
  proof (cases "n = 0")
    case True
    then show ?thesis by (simp add: bitLength.simps)
  next
    case False
    with 1 have "n div 2 < 2 ^ bitLength (n div 2)" by simp
    then have "n < 2 * 2 ^ bitLength (n div 2)" by linarith
    with False show ?thesis by (subst bitLength.simps) simp
  qed
qed

lemma bitLength_lower: "0 < n \<Longrightarrow> 2 ^ (bitLength n - 1) \<le> n"
proof (induction n rule: bitLength.induct)
  case (1 n)
  show ?case
  proof (cases "n div 2 = 0")
    case True
    with 1(2) have "n = 1" by linarith
    then show ?thesis by (simp add: bitLength.simps)
  next
    case False
    with 1 have ih: "2 ^ (bitLength (n div 2) - 1) \<le> n div 2" by simp
    from False have "0 < bitLength (n div 2)" by (subst bitLength.simps) simp
    then have "bitLength n - 1 = Suc (bitLength (n div 2) - 1)"
      using 1(2) by (subst bitLength.simps) simp
    with ih show ?thesis by simp
  qed
qed

lemma toDouble_upper: "toDouble m \<le> m + m div 2 ^ 53"
proof (cases "m < 2 ^ 53")
  case True
  then show ?thesis by (simp add: toDouble_def)
next
  case False
  define s where "s = bitLength m - 53"
  define q where "q = m div 2 ^ s"
  define r where "r = m mod 2 ^ s"
  define up where "up \<longleftrightarrow> 2 ^ (s - 1) < r \<or> (r = 2 ^ (s - 1) \<and> odd q)"
  have m: "q * 2 ^ s + r = m" unfolding q_def r_def by (rule div_mult_mod_eq)
  from False have mpos: "0 < m" by simp
  have upper: "m < 2 ^ bitLength m" by (rule bitLength_upper)
  have b: "53 < bitLength m"
  proof (rule ccontr)
    assume "\<not> 53 < bitLength m"
    then have "bitLength m \<le> 53" by simp
    then have "(2::nat) ^ bitLength m \<le> 2 ^ 53" by (rule power_increasing) simp
    with upper False show False by linarith
  qed
  then have s: "0 < s" by (simp add: s_def)
  have "2 ^ (bitLength m - 1) \<le> m" using mpos by (rule bitLength_lower)
  moreover have "bitLength m - 1 = (s - 1) + 53" using b by (simp add: s_def)
  ultimately have "2 ^ (s - 1) * 2 ^ 53 \<le> m" by (simp add: power_add)
  then have half: "2 ^ (s - 1) \<le> m div 2 ^ 53"
    by (simp add: less_eq_div_iff_mult_less_eq)
  have two: "(2::nat) ^ s = 2 ^ (s - 1) + 2 ^ (s - 1)" using s by (cases s) simp_all
  have "toDouble m = (if up then q + 1 else q) * 2 ^ s"
    using False by (simp add: toDouble_def Let_def s_def q_def r_def up_def)
  also have "\<dots> \<le> m + 2 ^ (s - 1)"
  proof (cases up)
    case True
    then have "2 ^ (s - 1) \<le> r" by (auto simp: up_def)
    with two have "q * 2 ^ s + 2 ^ s \<le> q * 2 ^ s + r + 2 ^ (s - 1)" by linarith
    with m have "q * 2 ^ s + 2 ^ s \<le> m + 2 ^ (s - 1)" by linarith
    with True show ?thesis by (simp add: algebra_simps)
  next
    case False
    from m have "q * 2 ^ s \<le> m + 2 ^ (s - 1)" by linarith
    with False show ?thesis by simp
  qed
  finally show ?thesis using half by linarith
qed

lemma floorMul_less: "0 < n \<Longrightarrow> floorMul k n < n"
proof -
  assume n: "0 < n"
  define m where "m = unat k * n"
  have "unat k < 2 ^ 32" using unsigned_less [of k] by simp
  then have "unat k + 1 \<le> 2 ^ 32" by simp
  then have "(unat k + 1) * n \<le> 2 ^ 32 * n" by (rule mult_le_mono1)
  then have le: "m + n \<le> 2 ^ 32 * n" by (simp add: m_def)
  then have "m < 2 ^ 53 * n" using n by simp
  then have "m div 2 ^ 53 < n" by (simp add: less_mult_imp_div_less mult.commute)
  with toDouble_upper [of m] le have "toDouble m < 2 ^ 32 * n" by linarith
  then have "toDouble m div 2 ^ 32 < n" by (simp add: less_mult_imp_div_less mult.commute)
  then show ?thesis by (simp add: floorMul_def m_def)
qed

lemma rngNext_pair: "rngNext t = (fst (rngNext t), snd (rngNext t))"
  by simp

subsection \<open>The shuffle\<close>

lemma swap_mset:
  assumes "i < length xs" and "j < length xs"
  shows "mset (xs[i := xs ! j, j := xs ! i]) = mset xs"
  using assms(2,1) by (rule mset_swap [of j xs i])

lemma fisherYates_mset:
  "i < length xs \<Longrightarrow> mset (fst (fisherYates i xs t)) = mset xs"
proof (induction i xs t rule: fisherYates.induct)
  case (1 i xs t)
  show ?case
  proof (cases "0 < i")
    case False
    then show ?thesis by (simp add: fisherYates.simps)
  next
    case True
    obtain t' k where r: "rngNext t = (t', k)" by (cases "rngNext t")
    define j where "j = floorMul k (i + 1)"
    have "j < i + 1" unfolding j_def by (rule floorMul_less) simp
    with 1(2) have j: "j < length xs" by simp
    let ?ys = "xs[i := xs ! j, j := xs ! i]"
    have "mset (fst (fisherYates (i - 1) ?ys t')) = mset ?ys"
      using 1(1) [OF True r [symmetric] refl j_def] 1(2) by simp
    also have "\<dots> = mset xs" using 1(2) j by (rule swap_mset)
    finally show ?thesis using True r by (subst fisherYates.simps) (simp add: j_def Let_def)
  qed
qed

lemma fisherYates_mset_all: "mset (fst (fisherYates (length xs - 1) xs t)) = mset xs"
proof (cases xs)
  case Nil
  then show ?thesis by (simp add: fisherYates.simps)
next
  case (Cons a list)
  then show ?thesis by (simp add: fisherYates_mset)
qed

lemma fisherYates_length_all: "length (fst (fisherYates (length xs - 1) xs t)) = length xs"
  using fisherYates_mset_all [of xs t] by (metis size_mset)

lemma fisherYates_step:
  assumes "0 < i" and "rngNext t = (t', k)" and "floorMul k (i + 1) = j"
    and "xs[i := xs ! j, j := xs ! i] = ys"
  shows "fisherYates i xs t = fisherYates (i - 1) ys t'"
  using assms by (subst fisherYates.simps) (simp add: Let_def)

subsection \<open>Distributing the tubes\<close>

lemma sum_list_update_int:
  fixes xs :: "int list"
  shows "i < length xs \<Longrightarrow> sum_list (xs[i := v]) = sum_list xs - xs ! i + v"
proof (induction xs arbitrary: i)
  case Nil
  then show ?case by simp
next
  case (Cons x xs)
  then show ?case by (cases i) simp_all
qed

lemma distributeRemaining_props:
  assumes "0 < colorCount'" and "length result = nat colorCount'" and "0 \<le> remaining"
    and "\<forall>x \<in> set result. 1 \<le> x"
  shows "length (fst (distributeRemaining remaining colorCount' result t)) = nat colorCount'
       \<and> sum_list (fst (distributeRemaining remaining colorCount' result t))
           = sum_list result + remaining
       \<and> (\<forall>x \<in> set (fst (distributeRemaining remaining colorCount' result t)). 1 \<le> x)"
  using assms
proof (induction remaining colorCount' result t rule: distributeRemaining.induct)
  case (1 remaining colorCount' result t)
  show ?case
  proof (cases "0 < remaining")
    case False
    with 1(4) have "remaining = 0" by simp
    then show ?thesis using 1(3,5) by (simp add: distributeRemaining.simps)
  next
    case True
    obtain t' k where r: "rngNext t = (t', k)" by (cases "rngNext t")
    define idx where "idx = floorMul k (nat colorCount')"
    have "idx < nat colorCount'" unfolding idx_def using 1(2) by (intro floorMul_less) simp
    with 1(3) have idx: "idx < length result" by simp
    let ?res = "result[idx := result ! idx + 1]"
    have len: "length ?res = nat colorCount'" using 1(3) by simp
    have pos: "\<forall>x \<in> set ?res. 1 \<le> x"
    proof
      fix x assume "x \<in> set ?res"
      then have "x = result ! idx + 1 \<or> x \<in> set result"
        using set_update_subset_insert [of result idx "result ! idx + 1"] by auto
      moreover have "1 \<le> result ! idx" using 1(5) idx by simp
      ultimately show "1 \<le> x" using 1(5) by auto
    qed
    have sum: "sum_list ?res = sum_list result + 1"
      using idx by (simp add: sum_list_update_int)
    have ih: "length (fst (distributeRemaining (remaining - 1) colorCount' ?res t')) = nat colorCount'
       \<and> sum_list (fst (distributeRemaining (remaining - 1) colorCount' ?res t'))
           = sum_list ?res + (remaining - 1)
       \<and> (\<forall>x \<in> set (fst (distributeRemaining (remaining - 1) colorCount' ?res t')). 1 \<le> x)"
      using 1(1) [OF True r [symmetric] refl idx_def 1(2) len _ pos] True by simp
    have unf: "distributeRemaining remaining colorCount' result t
                 = distributeRemaining (remaining - 1) colorCount' ?res t'"
      using True r by (subst distributeRemaining.simps) (simp add: idx_def Let_def)
    show ?thesis unfolding unf using ih sum by simp
  qed
qed

lemma cutLoop_props:
  assumes "0 \<le> i" and "i \<le> colorCount' - 1" and "length result = nat colorCount'"
    and "0 \<le> remaining"
    and "\<forall>j. nat i \<le> j \<and> j < length result \<longrightarrow> result ! j = 0"
    and "\<forall>x \<in> set result. 0 \<le> x"
  shows "length (fst (cutLoop i colorCount' remaining result t)) = nat colorCount'
       \<and> 0 \<le> fst (snd (cutLoop i colorCount' remaining result t))
       \<and> fst (cutLoop i colorCount' remaining result t) ! nat (colorCount' - 1) = 0
       \<and> (\<forall>x \<in> set (fst (cutLoop i colorCount' remaining result t)). 0 \<le> x)
       \<and> sum_list (fst (cutLoop i colorCount' remaining result t))
           + fst (snd (cutLoop i colorCount' remaining result t))
           = sum_list result + remaining"
  using assms
proof (induction i colorCount' remaining result t rule: cutLoop.induct)
  case (1 i colorCount' remaining result t)
  show ?case
  proof (cases "i < colorCount' - 1")
    case False
    with 1(3) have i: "i = colorCount' - 1" by simp
    with 1(2,4) have "nat i < length result" by simp
    with 1(6) have "result ! nat i = 0" by simp
    with False i show ?thesis using 1(4,5,7) by (simp add: cutLoop.simps)
  next
    case True
    obtain t' k where r: "rngNext t = (t', k)" by (cases "rngNext t")
    define take' where "take' = int (floorMul k (nat (remaining + 1)))"
    have "floorMul k (nat (remaining + 1)) < nat (remaining + 1)"
      using 1(5) by (intro floorMul_less) simp
    then have take: "0 \<le> take'" "take' \<le> remaining" using 1(5) by (simp_all add: take'_def)
    have ni: "nat i < length result" using True 1(2,4) by simp
    let ?res = "result[nat i := take']"
    have len: "length ?res = nat colorCount'" using 1(4) by simp
    have zeros: "\<forall>j. nat (i + 1) \<le> j \<and> j < length ?res \<longrightarrow> ?res ! j = 0"
      using 1(6) 1(2) by (auto simp: nth_list_update)
    have nonneg: "\<forall>x \<in> set ?res. 0 \<le> x"
    proof
      fix x assume "x \<in> set ?res"
      then have "x = take' \<or> x \<in> set result"
        using set_update_subset_insert [of result "nat i" take'] by auto
      then show "0 \<le> x" using take(1) 1(7) by auto
    qed
    have "result ! nat i = 0" using 1(6) ni by simp
    then have sum: "sum_list ?res = sum_list result + take'"
      using ni by (simp add: sum_list_update_int)
    have unf: "cutLoop i colorCount' remaining result t
                 = cutLoop (i + 1) colorCount' (remaining - take') ?res t'"
      using True r by (subst cutLoop.simps) (simp add: take'_def Let_def)
    have ih: "length (fst (cutLoop (i + 1) colorCount' (remaining - take') ?res t')) = nat colorCount'
       \<and> 0 \<le> fst (snd (cutLoop (i + 1) colorCount' (remaining - take') ?res t'))
       \<and> fst (cutLoop (i + 1) colorCount' (remaining - take') ?res t') ! nat (colorCount' - 1) = 0
       \<and> (\<forall>x \<in> set (fst (cutLoop (i + 1) colorCount' (remaining - take') ?res t')). 0 \<le> x)
       \<and> sum_list (fst (cutLoop (i + 1) colorCount' (remaining - take') ?res t'))
           + fst (snd (cutLoop (i + 1) colorCount' (remaining - take') ?res t'))
           = sum_list ?res + (remaining - take')"
      using 1(1) [OF True r [symmetric] refl take'_def _ _ len _ zeros nonneg] True 1(2) take
      by simp
    show ?thesis unfolding unf using ih sum by simp
  qed
qed

lemma sum_list_mset_eq:
  fixes xs ys :: "int list"
  shows "mset xs = mset ys \<Longrightarrow> sum_list xs = sum_list ys"
  by (metis sum_mset_sum_list)

lemma autoDistributeTubes_Inl:
  "autoDistributeTubes colorCount' tubeCount' t allowZero = Inl e
     \<longleftrightarrow> \<not> allowZero \<and> tubeCount' < colorCount' \<and> e = TubeCountBelowColorCount"
  by (auto simp: autoDistributeTubes_def Let_def split: prod.splits)

lemma autoDistributeTubes_Inr:
  assumes "autoDistributeTubes colorCount' tubeCount' t allowZero = Inr (d, t')"
    and "0 < colorCount'" and "0 < tubeCount'"
  shows "length d = nat colorCount' \<and> sum_list d = tubeCount' \<and> (\<forall>x \<in> set d. 0 \<le> x)
       \<and> (\<not> allowZero \<longrightarrow> (\<forall>x \<in> set d. 1 \<le> x))"
proof (cases allowZero)
  case False
  with assms(1) have ge: "colorCount' \<le> tubeCount'"
    by (auto simp: autoDistributeTubes_def split: if_splits)
  let ?ones = "map (\<lambda>_. 1 :: int) (replicate (nat colorCount') (0 :: int))"
  have d: "d = fst (distributeRemaining (tubeCount' - colorCount') colorCount' ?ones t)"
    using assms(1) False ge by (auto simp: autoDistributeTubes_def Let_def)
  have "sum_list ?ones = colorCount'" using assms(2) by (simp add: sum_list_replicate)
  moreover have "length d = nat colorCount'
       \<and> sum_list d = sum_list ?ones + (tubeCount' - colorCount')
       \<and> (\<forall>x \<in> set d. 1 \<le> x)"
    unfolding d using assms(2) ge by (intro distributeRemaining_props) simp_all
  ultimately show ?thesis by fastforce
next
  case True
  let ?zeros = "replicate (nat colorCount') (0 :: int)"
  let ?cut = "cutLoop 0 colorCount' tubeCount' ?zeros t"
  let ?res = "(fst ?cut)[nat (colorCount' - 1) := fst (snd ?cut)]"
  have d: "d = fst (fisherYates (nat (colorCount' - 1)) ?res (snd (snd ?cut)))"
    using assms(1) True by (auto simp: autoDistributeTubes_def Let_def split: prod.splits)
  have cut: "length (fst ?cut) = nat colorCount'
       \<and> 0 \<le> fst (snd ?cut)
       \<and> fst ?cut ! nat (colorCount' - 1) = 0
       \<and> (\<forall>x \<in> set (fst ?cut). 0 \<le> x)
       \<and> sum_list (fst ?cut) + fst (snd ?cut) = sum_list ?zeros + tubeCount'"
    using assms(2,3) by (intro cutLoop_props) simp_all
  have last: "nat (colorCount' - 1) < length (fst ?cut)" using cut assms(2) by simp
  have len: "length ?res = nat colorCount'" using cut by simp
  have sum: "sum_list ?res = tubeCount'"
    using cut last by (simp add: sum_list_update_int sum_list_replicate)
  have nonneg: "\<forall>x \<in> set ?res. 0 \<le> x"
  proof
    fix x assume "x \<in> set ?res"
    then have "x = fst (snd ?cut) \<or> x \<in> set (fst ?cut)"
      using set_update_subset_insert [of "fst ?cut" "nat (colorCount' - 1)" "fst (snd ?cut)"]
      by auto
    then show "0 \<le> x" using cut by auto
  qed
  have "nat (colorCount' - 1) = length ?res - 1" using len assms(2) by simp
  then have m: "mset d = mset ?res"
    unfolding d using fisherYates_mset_all [of ?res "snd (snd ?cut)"] by simp
  then have "length d = length ?res" by (metis size_mset)
  moreover have "sum_list d = sum_list ?res" using m by (rule sum_list_mset_eq)
  moreover have "set d = set ?res" using m by (metis set_mset_mset)
  ultimately show ?thesis using len sum nonneg True by simp
qed

lemma chooseDistribution_Inl:
  "(\<exists>e. chooseDistribution cc tc p az t = Inl e) \<longleftrightarrow>
     (case p of
        Some q \<Rightarrow> int (length q) \<noteq> cc \<or> sum_list q \<noteq> tc \<or> (\<not> az \<and> (\<exists>v \<in> set q. v \<le> 0))
      | None \<Rightarrow> \<not> az \<and> tc < cc)"
  by (cases p) (auto simp: chooseDistribution_def autoDistributeTubes_Inl list_ex_iff
      simp del: not_less split: if_splits)

lemma chooseDistribution_Inr:
  assumes "chooseDistribution cc tc p az t = Inr (d, t')" and "0 < cc" and "0 < tc"
  shows "length d = nat cc \<and> sum_list d = tc \<and> (\<not> az \<longrightarrow> (\<forall>x \<in> set d. 1 \<le> x))
       \<and> (case p of Some q \<Rightarrow> d = q | None \<Rightarrow> \<forall>x \<in> set d. 0 \<le> x)"
proof (cases p)
  case None
  with assms(1) have "autoDistributeTubes cc tc t az = Inr (d, t')"
    by (simp add: chooseDistribution_def)
  from autoDistributeTubes_Inr [OF this assms(2,3)] None show ?thesis by simp
next
  case (Some q)
  with assms(1) have "d = q" "int (length q) = cc" "sum_list q = tc"
    "\<not> az \<longrightarrow> \<not> list_ex (\<lambda>v. v \<le> 0) q"
    by (auto simp: chooseDistribution_def split: if_splits)
  then show ?thesis using Some by (auto simp: list_ex_iff)
qed

lemma chooseDistribution_no_mismatch:
  "chooseDistribution cc tc p az t \<noteq> Inl InternalMismatch"
  "chooseDistribution cc tc p az t \<noteq> Inl InvalidConfig"
  by (auto simp: chooseDistribution_def autoDistributeTubes_Inl split: option.splits if_splits)

lemma distributeRemaining_unfold:
  "distributeRemaining remaining colorCount' result t =
     (if 0 < remaining then
        distributeRemaining (remaining - 1) colorCount'
          (result[floorMul (snd (rngNext t)) (nat colorCount') :=
                    result ! floorMul (snd (rngNext t)) (nat colorCount') + 1])
          (fst (rngNext t))
      else (result, t))"
  by (subst distributeRemaining.simps) (simp add: Let_def split: prod.splits)

subsection \<open>The solved state\<close>

lemma buildSolved_length:
  assumes "length d = nat cc"
  shows "length (buildSolved cc ts d) = sum_list (map nat d)"
proof -
  have "length (buildSolved cc ts d) = sum_list (map (\<lambda>c. nat (d ! c)) [0..<length d])"
    using assms by (simp add: buildSolved_def length_concat comp_def)
  also have "map (\<lambda>c. nat (d ! c)) [0..<length d] = map nat (map ((!) d) [0..<length d])"
    by simp
  also have "\<dots> = map nat d" by (simp only: map_nth)
  finally show ?thesis .
qed

lemma sum_list_nat_ge: "sum_list d \<le> int (sum_list (map nat d))"
  by (induction d) auto

lemma sum_list_nat_eq_iff: "int (sum_list (map nat d)) = sum_list d \<longleftrightarrow> (\<forall>x \<in> set d. 0 \<le> x)"
proof (induction d)
  case Nil
  then show ?case by simp
next
  case (Cons x d)
  have ge: "sum_list d \<le> int (sum_list (map nat d))" by (rule sum_list_nat_ge)
  show ?case
  proof (cases "0 \<le> x")
    case True
    with Cons show ?thesis by simp
  next
    case False
    with ge have "x + sum_list d < int (nat x) + int (sum_list (map nat d))" by simp
    with False show ?thesis by simp
  qed
qed

lemma buildSolved_tube_length: "tube \<in> set (buildSolved cc ts d) \<Longrightarrow> length tube = nat ts"
  by (auto simp: buildSolved_def)

lemma count_list_replicate: "count_list (replicate n v) x = (if x = v then n else 0)"
  by (induction n) auto

lemma count_list_concat_replicate:
  "count_list (concat (replicate a (replicate s v))) x = (if x = v then a * s else 0)"
  by (induction a) (auto simp: count_list_replicate)

lemma count_list_solved_upto:
  "count_list (concat (concat (map (\<lambda>c. replicate (a c) (replicate s (int c))) [0..<n]))) x
     = (if 0 \<le> x \<and> nat x < n then a (nat x) * s else 0)"
proof (induction n)
  case 0
  then show ?case by simp
next
  case (Suc n)
  show ?case
  proof (cases "x = int n")
    case True
    with Suc show ?thesis by (simp add: count_list_concat_replicate)
  next
    case False
    then have "\<not> (0 \<le> x \<and> nat x = n)" by auto
    then have "(0 \<le> x \<and> nat x < Suc n) = (0 \<le> x \<and> nat x < n)" by auto
    with Suc False show ?thesis by (simp add: count_list_concat_replicate)
  qed
qed

lemma count_list_buildSolved:
  "count_list (concat (buildSolved cc ts d)) x
     = (if 0 \<le> x \<and> x < cc then nat (d ! nat x) * nat ts else 0)"
proof -
  have "(0 \<le> x \<and> nat x < nat cc) = (0 \<le> x \<and> x < cc)" by auto
  then show ?thesis
    unfolding buildSolved_def
    using count_list_solved_upto [of "\<lambda>c. nat (d ! c)" "nat ts" "nat cc" x] by simp
qed

lemma length_concat_uniform:
  "\<forall>tube \<in> set xss. length tube = s \<Longrightarrow> length (concat xss) = length xss * s"
  by (induction xss) auto

subsection \<open>Refilling the tubes\<close>

lemma chunk_nth:
  "k + s \<le> length xs \<Longrightarrow> map (\<lambda>b. xs ! (k + b)) [0..<s] = take s (drop k xs)"
  by (rule nth_equalityI) simp_all

lemma redistribute_chunks:
  assumes "n * s \<le> length xs"
  shows "redistribute n s xs = map (\<lambda>t. take s (drop (t * s) xs)) [0..<n]"
  unfolding redistribute_def
proof (rule map_cong [OF refl])
  fix t assume "t \<in> set [0..<n]"
  then have "Suc t \<le> n" by simp
  then have "Suc t * s \<le> n * s" by (rule mult_le_mono1)
  with assms have "t * s + s \<le> length xs" by simp
  then show "map (\<lambda>b. xs ! (t * s + b)) [0..<s] = take s (drop (t * s) xs)"
    by (rule chunk_nth)
qed

lemma concat_chunks: "concat (map (\<lambda>t. take s (drop (t * s) xs)) [0..<n]) = take (n * s) xs"
proof (induction n)
  case 0
  then show ?case by simp
next
  case (Suc n)
  have "take (n * s + s) xs = take (n * s) xs @ take s (drop (n * s) xs)"
    by (rule take_add)
  with Suc show ?case by (simp add: add.commute)
qed

lemma concat_redistribute: "length xs = n * s \<Longrightarrow> concat (redistribute n s xs) = xs"
  by (simp add: redistribute_chunks concat_chunks)

lemma length_redistribute: "length (redistribute n s xs) = n"
  by (simp add: redistribute_def)

lemma tube_length_redistribute: "tube \<in> set (redistribute n s xs) \<Longrightarrow> length tube = s"
  by (auto simp: redistribute_def)

lemma map_length_redistribute: "map length (redistribute n s xs) = replicate n s"
  by (simp add: redistribute_def comp_def map_replicate_const)

subsection \<open>The shuffle passes and the retry loop\<close>

lemma shufflePasses_mset: "mset (fst (shufflePasses k xs t)) = mset xs"
proof (induction k)
  case 0
  then show ?case by simp
next
  case (Suc k)
  obtain ys t' where p: "shufflePasses k xs t = (ys, t')" by (cases "shufflePasses k xs t")
  with Suc have "mset ys = mset xs" by simp
  moreover have "mset (fst (fisherYates (length ys - 1) ys t')) = mset ys"
    by (rule fisherYates_mset_all)
  ultimately show ?case using p by simp
qed

lemma shufflePasses_length: "length (fst (shufflePasses k xs t)) = length xs"
  using shufflePasses_mset [of k xs t] by (metis size_mset)

lemma shufflePasses_front:
  "shufflePasses (Suc k) xs t =
     shufflePasses k (fst (fisherYates (length xs - 1) xs t))
       (snd (fisherYates (length xs - 1) xs t))"
proof (induction k)
  case 0
  then show ?case by simp
next
  case (Suc k)
  have "shufflePasses (Suc (Suc k)) xs t =
          (let (ys, t') = shufflePasses (Suc k) xs t in fisherYates (length ys - 1) ys t')"
    by (rule shufflePasses.simps(2))
  also have "\<dots> =
          (let (ys, t') = shufflePasses k (fst (fisherYates (length xs - 1) xs t))
                            (snd (fisherYates (length xs - 1) xs t))
           in fisherYates (length ys - 1) ys t')"
    by (simp only: Suc)
  also have "\<dots> = shufflePasses (Suc k) (fst (fisherYates (length xs - 1) xs t))
                      (snd (fisherYates (length xs - 1) xs t))"
    by (rule shufflePasses.simps(2) [symmetric])
  finally show ?case .
qed

lemma shuffleLoop_spec:
  "a < maxShuffleAttempts \<Longrightarrow> loopSpec n s m a xs t (shuffleLoop n s m a xs t ft)"
proof (induction n s m a xs t ft rule: shuffleLoop.induct)
  case (1 n s m a xs t ft)
  obtain ys t' where p: "fisherYates (length xs - 1) xs t = (ys, t')"
    by (cases "fisherYates (length xs - 1) xs t")
  define ft' where "ft' = redistribute n s ys"
  have one: "shufflePasses (Suc 0) xs t = (ys, t')" using p by simp
  show ?case
  proof (cases "colorDiversityMet m ft'")
    case True
    then have "shuffleLoop n s m a xs t ft = (ft', a + 1, t')"
      using 1(2) p by (subst shuffleLoop.simps) (simp add: ft'_def Let_def)
    then show ?thesis using 1(2) True one by (simp add: loopSpec_def ft'_def)
  next
    case False
    then have unf: "shuffleLoop n s m a xs t ft = shuffleLoop n s m (a + 1) ys t' ft'"
      using 1(2) p by (subst shuffleLoop.simps) (simp add: ft'_def Let_def)
    show ?thesis
    proof (cases "a + 1 < maxShuffleAttempts")
      case stop: False
      then have "shuffleLoop n s m (a + 1) ys t' ft' = (ft', a + 1, t')"
        by (subst shuffleLoop.simps) simp
      then show ?thesis using 1(2) stop one unfolding unf by (simp add: loopSpec_def ft'_def)
    next
      case True
      let ?R = "shuffleLoop n s m (a + 1) ys t' ft'"
      have ih: "loopSpec n s m (a + 1) ys t' ?R"
        using 1(1) [OF 1(2) p [symmetric] refl ft'_def False True] .
      define j where "j = fst (snd ?R) - (a + 1)"
      have lt: "a + 1 < fst (snd ?R)" using ih by (simp add: loopSpec_def)
      then have k: "fst (snd ?R) - a = Suc j" by (simp add: j_def)
      have front: "\<And>i. shufflePasses (Suc i) xs t = shufflePasses i ys t'"
        using p by (simp add: shufflePasses_front del: shufflePasses.simps)
      from ih have A: "fst (snd ?R) \<le> maxShuffleAttempts"
        and B: "fst ?R = redistribute n s (fst (shufflePasses j ys t'))"
        and C: "snd (snd ?R) = snd (shufflePasses j ys t')"
        and D: "fst (snd ?R) < maxShuffleAttempts \<longrightarrow> colorDiversityMet m (fst ?R)"
        unfolding loopSpec_def j_def by blast+
      have E: "\<not> colorDiversityMet m (redistribute n s (fst (shufflePasses i xs t)))"
        if "1 \<le> i" "i < Suc j" for i
      proof (cases i)
        case 0
        with that show ?thesis by simp
      next
        case (Suc i')
        show ?thesis
        proof (cases "i' = 0")
          case True
          with Suc one False show ?thesis by (simp add: ft'_def)
        next
          case nz: False
          with that Suc have "1 \<le> i' \<and> i' < fst (snd ?R) - (a + 1)" by (simp add: j_def)
          with ih have "\<not> colorDiversityMet m (redistribute n s (fst (shufflePasses i' ys t')))"
            unfolding loopSpec_def by blast
          then show ?thesis unfolding Suc front .
        qed
      qed
      show ?thesis
        unfolding unf loopSpec_def k front
      proof (intro conjI)
        show "a < fst (snd ?R)" using lt by simp
        show "fst (snd ?R) \<le> maxShuffleAttempts" by (rule A)
        show "fst ?R = redistribute n s (fst (shufflePasses j ys t'))" by (rule B)
        show "snd (snd ?R) = snd (shufflePasses j ys t')" by (rule C)
        show "fst (snd ?R) < maxShuffleAttempts \<longrightarrow> colorDiversityMet m (fst ?R)" by (rule D)
        show "\<forall>i. 1 \<le> i \<and> i < Suc j \<longrightarrow>
                \<not> colorDiversityMet m (redistribute n s (fst (shufflePasses i xs t)))"
          using E by blast
      qed
    qed
  qed
qed

lemma shuffleLoop_zero:
  obtains ft k t' where "shuffleLoop n s m 0 xs t [] = (ft, k, t')"
    and "1 \<le> k" and "k \<le> 100"
    and "ft = redistribute n s (fst (shufflePasses k xs t))"
    and "t' = snd (shufflePasses k xs t)"
    and "k < 100 \<longrightarrow> colorDiversityMet m ft"
    and "\<forall>j. 1 \<le> j \<and> j < k \<longrightarrow>
           \<not> colorDiversityMet m (redistribute n s (fst (shufflePasses j xs t)))"
proof -
  obtain ft k t' where R: "shuffleLoop n s m 0 xs t [] = (ft, k, t')"
    by (cases "shuffleLoop n s m 0 xs t []")
  have "loopSpec n s m 0 xs t (ft, k, t')"
    using shuffleLoop_spec [of 0 n s m xs t "[]"] R by (simp add: maxShuffleAttempts_def)
  then have L: "0 < k \<and> k \<le> 100 \<and> ft = redistribute n s (fst (shufflePasses k xs t))
    \<and> t' = snd (shufflePasses k xs t) \<and> (k < 100 \<longrightarrow> colorDiversityMet m ft)
    \<and> (\<forall>j. 1 \<le> j \<and> j < k \<longrightarrow>
           \<not> colorDiversityMet m (redistribute n s (fst (shufflePasses j xs t))))"
    unfolding loopSpec_def maxShuffleAttempts_def fst_conv snd_conv diff_zero by blast
  then have "1 \<le> k" by simp
  moreover from L have "k \<le> 100" "ft = redistribute n s (fst (shufflePasses k xs t))"
    "t' = snd (shufflePasses k xs t)" "k < 100 \<longrightarrow> colorDiversityMet m ft"
    "\<forall>j. 1 \<le> j \<and> j < k \<longrightarrow>
           \<not> colorDiversityMet m (redistribute n s (fst (shufflePasses j xs t)))"
    by blast+
  ultimately show thesis using R by (intro that)
qed

lemma shuffleLoop_accept:
  assumes "attemptCount < maxShuffleAttempts"
    and "fisherYates (length allBalls - 1) allBalls t = (allBalls', t')"
    and "colorDiversityMet m (redistribute n s allBalls')"
  shows "shuffleLoop n s m attemptCount allBalls t ft
           = (redistribute n s allBalls', attemptCount + 1, t')"
  using assms by (subst shuffleLoop.simps) (simp add: Let_def)

lemma not_diverse_single:
  assumes "tube \<in> set ft" and "length tube = 1" and "1 < m"
  shows "\<not> colorDiversityMet m ft"
proof -
  have "length (remdups tube) \<le> length tube" by (rule length_remdups_leq)
  with assms(2,3) have "int (length (remdups tube)) < m" by simp
  with assms(1) show ?thesis by (auto simp: colorDiversityMet_def list_all_iff)
qed

subsection \<open>What createPuzzle returns and when it raises\<close>

lemma createPuzzle_Inr_iff:
  "createPuzzle rnd config = Inr r \<longleftrightarrow>
     0 < tubeSize config \<and> 0 < tubeCount config \<and> 0 < colorCount config
   \<and> (\<exists>d t1. chooseDistribution (colorCount config) (tubeCount config) (perColorTubes config)
                 (allowZeroOf config) (seededRng (makeSeedFrom rnd (seed config))) = Inr (d, t1)
            \<and> int (length (buildSolved (colorCount config) (tubeSize config) d)) = tubeCount config
            \<and> r = resultOf rnd config d t1)"
  by (auto simp: createPuzzle_def resultOf_def allowZeroOf_def Let_def
      split: sum.splits prod.splits if_splits)

lemma resultOf_simps [simp]:
  "perColorTubesUsed (resultOf rnd config d t1) = d"
  "seedUsed (resultOf rnd config d t1) = makeSeedFrom rnd (seed config)"
  by (simp_all add: resultOf_def)

lemma createPuzzle_accepted:
  assumes "createPuzzle rnd config = Inr r"
  obtains d t1 k where
    "0 < tubeSize config" "0 < tubeCount config" "0 < colorCount config"
    "chooseDistribution (colorCount config) (tubeCount config) (perColorTubes config)
       (allowZeroOf config) (seededRng (makeSeedFrom rnd (seed config))) = Inr (d, t1)"
    "length d = nat (colorCount config)" "sum_list d = tubeCount config"
    "\<forall>x \<in> set d. 0 \<le> x"
    "length (concat (buildSolved (colorCount config) (tubeSize config) d))
       = nat (tubeCount config) * nat (tubeSize config)"
    "1 \<le> k" "k \<le> maxShuffleAttempts"
    "tubes r =
       redistribute (nat (tubeCount config)) (nat (tubeSize config))
         (fst (shufflePasses k (concat (buildSolved (colorCount config) (tubeSize config) d)) t1))
       @ replicate (nat (case emptyTubeCount config of None \<Rightarrow> 0 | Some n \<Rightarrow> n)) []"
    "perColorTubesUsed r = d" "seedUsed r = makeSeedFrom rnd (seed config)"
proof -
  from assms obtain d t1 where pos: "0 < tubeSize config" "0 < tubeCount config" "0 < colorCount config"
    and cd: "chooseDistribution (colorCount config) (tubeCount config) (perColorTubes config)
       (allowZeroOf config) (seededRng (makeSeedFrom rnd (seed config))) = Inr (d, t1)"
    and len: "int (length (buildSolved (colorCount config) (tubeSize config) d)) = tubeCount config"
    and r: "r = resultOf rnd config d t1"
    unfolding createPuzzle_Inr_iff by blast
  let ?solved = "buildSolved (colorCount config) (tubeSize config) d"
  let ?n = "nat (tubeCount config)" and ?s = "nat (tubeSize config)"
  let ?R = "shuffleLoop ?n ?s (min 3 (colorCount config)) 0 (concat ?solved) t1 []"
  from chooseDistribution_Inr [OF cd pos(3,2)]
  have d: "length d = nat (colorCount config)" "sum_list d = tubeCount config" by simp_all
  from len d have "int (sum_list (map nat d)) = sum_list d"
    by (simp add: buildSolved_length)
  then have nonneg: "\<forall>x \<in> set d. 0 \<le> x" by (simp add: sum_list_nat_eq_iff)
  have "length (concat ?solved) = length ?solved * ?s"
    by (rule length_concat_uniform) (simp add: buildSolved_tube_length)
  moreover from len have "length ?solved = ?n" by simp
  ultimately have balls: "length (concat ?solved) = ?n * ?s" by simp
  have "loopSpec ?n ?s (min 3 (colorCount config)) 0 (concat ?solved) t1 ?R"
    by (rule shuffleLoop_spec) (simp add: maxShuffleAttempts_def)
  then have k: "1 \<le> fst (snd ?R)" "fst (snd ?R) \<le> maxShuffleAttempts"
    and ft: "fst ?R = redistribute ?n ?s (fst (shufflePasses (fst (snd ?R)) (concat ?solved) t1))"
    by (simp_all add: loopSpec_def)
  show thesis
    by (rule that [OF pos cd d nonneg balls k]) (simp_all add: r resultOf_def ft)
qed

lemma count_list_shuffled:
  assumes "createPuzzle rnd config = Inr r"
  shows "count_list (concat (tubes r)) c
           = (if 0 \<le> c \<and> c < colorCount config
              then nat (perColorTubesUsed r ! nat c) * nat (tubeSize config) else 0)"
proof -
  from assms obtain d t1 k where d: "perColorTubesUsed r = d"
    and balls: "length (concat (buildSolved (colorCount config) (tubeSize config) d))
       = nat (tubeCount config) * nat (tubeSize config)"
    and t: "tubes r =
       redistribute (nat (tubeCount config)) (nat (tubeSize config))
         (fst (shufflePasses k (concat (buildSolved (colorCount config) (tubeSize config) d)) t1))
       @ replicate (nat (case emptyTubeCount config of None \<Rightarrow> 0 | Some n \<Rightarrow> n)) []"
    by (rule createPuzzle_accepted)
  let ?n = "nat (tubeCount config)" and ?s = "nat (tubeSize config)"
  let ?solved = "concat (buildSolved (colorCount config) (tubeSize config) d)"
  let ?balls = "fst (shufflePasses k ?solved t1)"
  have "concat (tubes r) = concat (redistribute ?n ?s ?balls)" by (simp add: t)
  also have "\<dots> = ?balls"
    by (rule concat_redistribute) (simp add: shufflePasses_length balls)
  finally have "mset (concat (tubes r)) = mset ?solved" by (simp add: shufflePasses_mset)
  then have "count (mset (concat (tubes r))) c = count (mset ?solved) c" by simp
  then have "count_list (concat (tubes r)) c = count_list ?solved c" by (simp only: count_mset)
  then show ?thesis by (simp add: count_list_buildSolved d)
qed

lemma map_length_tubes:
  assumes "createPuzzle rnd config = Inr r"
  shows "map length (tubes r) =
           replicate (nat (tubeCount config)) (nat (tubeSize config))
           @ replicate (nat (case emptyTubeCount config of None \<Rightarrow> 0 | Some n \<Rightarrow> n)) 0"
proof -
  from assms obtain d t1 k where "tubes r =
       redistribute (nat (tubeCount config)) (nat (tubeSize config))
         (fst (shufflePasses k (concat (buildSolved (colorCount config) (tubeSize config) d)) t1))
       @ replicate (nat (case emptyTubeCount config of None \<Rightarrow> 0 | Some n \<Rightarrow> n)) []"
    by (rule createPuzzle_accepted)
  then show ?thesis by (simp add: map_length_redistribute)
qed

lemma createPuzzle_Inr_ex:
  "(\<exists>r. createPuzzle rnd config = Inr r) \<longleftrightarrow>
     \<not> (claimedConfigError config \<or> negativeEntryAllowed config)"
proof
  assume "\<exists>r. createPuzzle rnd config = Inr r"
  then obtain r where r: "createPuzzle rnd config = Inr r" ..
  then obtain d t1 k where pos: "0 < tubeSize config" "0 < tubeCount config" "0 < colorCount config"
    and cd: "chooseDistribution (colorCount config) (tubeCount config) (perColorTubes config)
       (allowZeroOf config) (seededRng (makeSeedFrom rnd (seed config))) = Inr (d, t1)"
    and nonneg: "\<forall>x \<in> set d. 0 \<le> x"
    by (rule createPuzzle_accepted)
  from cd have noerr: "\<not> (\<exists>e. chooseDistribution (colorCount config) (tubeCount config)
       (perColorTubes config) (allowZeroOf config) (seededRng (makeSeedFrom rnd (seed config))) = Inl e)"
    by simp
  from chooseDistribution_Inr [OF cd pos(3,2)]
  have same: "case perColorTubes config of Some q \<Rightarrow> d = q | None \<Rightarrow> True"
    by (simp split: option.splits)
  show "\<not> (claimedConfigError config \<or> negativeEntryAllowed config)"
  proof (cases "perColorTubes config")
    case None
    with noerr pos show ?thesis
      unfolding chooseDistribution_Inl by (simp add: claimedConfigError_def negativeEntryAllowed_def)
  next
    case (Some q)
    with same nonneg have "\<forall>x \<in> set q. 0 \<le> x" by simp
    then have "\<not> list_ex (\<lambda>v. v < 0) q" by (auto simp: list_ex_iff)
    with Some noerr pos show ?thesis
      unfolding chooseDistribution_Inl
      by (auto simp: claimedConfigError_def negativeEntryAllowed_def list_ex_iff)
  qed
next
  assume ok: "\<not> (claimedConfigError config \<or> negativeEntryAllowed config)"
  then have pos: "0 < tubeSize config" "0 < tubeCount config" "0 < colorCount config"
    by (simp_all add: claimedConfigError_def)
  let ?cd = "chooseDistribution (colorCount config) (tubeCount config) (perColorTubes config)
       (allowZeroOf config) (seededRng (makeSeedFrom rnd (seed config)))"
  have "\<not> (\<exists>e. ?cd = Inl e)"
    unfolding chooseDistribution_Inl using ok
    by (auto simp: claimedConfigError_def list_ex_iff split: option.splits)
  then obtain d t1 where cd: "?cd = Inr (d, t1)" by (cases ?cd) auto
  from chooseDistribution_Inr [OF cd pos(3,2)]
  have d: "length d = nat (colorCount config)" "sum_list d = tubeCount config"
    and one: "\<not> allowZeroOf config \<longrightarrow> (\<forall>x \<in> set d. 1 \<le> x)"
    and same: "case perColorTubes config of Some q \<Rightarrow> d = q | None \<Rightarrow> \<forall>x \<in> set d. 0 \<le> x"
    by simp_all
  have nonneg: "\<forall>x \<in> set d. 0 \<le> x"
  proof (cases "allowZeroOf config")
    case False
    with one show ?thesis by fastforce
  next
    case True
    with ok same show ?thesis
      by (auto simp: negativeEntryAllowed_def list_ex_iff not_less split: option.splits)
  qed
  then have "int (sum_list (map nat d)) = sum_list d" by (simp add: sum_list_nat_eq_iff)
  with d have "int (length (buildSolved (colorCount config) (tubeSize config) d)) = tubeCount config"
    by (simp add: buildSolved_length)
  with pos cd show "\<exists>r. createPuzzle rnd config = Inr r"
    unfolding createPuzzle_Inr_iff by blast
qed

lemma createPuzzle_Inl_cases:
  assumes "createPuzzle rnd config = Inl e"
  shows "(tubeSize config \<le> 0 \<or> tubeCount config \<le> 0 \<or> colorCount config \<le> 0)
       \<or> chooseDistribution (colorCount config) (tubeCount config) (perColorTubes config)
            (allowZeroOf config) (seededRng (makeSeedFrom rnd (seed config))) = Inl e
       \<or> e = InternalMismatch"
  using assms
  by (auto simp: createPuzzle_def allowZeroOf_def Let_def
      split: sum.splits prod.splits if_splits)

lemma createPuzzle_mismatch_iff:
  "createPuzzle rnd config = Inl InternalMismatch \<longleftrightarrow>
     0 < tubeSize config \<and> 0 < tubeCount config \<and> 0 < colorCount config
   \<and> (\<exists>d t1. chooseDistribution (colorCount config) (tubeCount config) (perColorTubes config)
                 (allowZeroOf config) (seededRng (makeSeedFrom rnd (seed config))) = Inr (d, t1)
            \<and> int (length (buildSolved (colorCount config) (tubeSize config) d)) \<noteq> tubeCount config)"
  using chooseDistribution_no_mismatch(1)
    [of "colorCount config" "tubeCount config" "perColorTubes config" "allowZeroOf config"
        "seededRng (makeSeedFrom rnd (seed config))"]
  by (auto simp: createPuzzle_def allowZeroOf_def Let_def
      split: sum.splits prod.splits if_splits)

subsection \<open>Runs of createPuzzle, step by step\<close>

lemma rngNext_small:
  "rngNext 2 = (1831565815, 3153583793)"
  "rngNext 1831565815 = (3663131628, 1395857638)"
  "rngNext 3663131628 = (5494697441, 1225337227)"
  by (simp_all add: rngNext_def toDouble_def)

lemma floorMul_small:
  "floorMul 3153583793 (3 + 1) = 2" "floorMul 1395857638 (2 + 1) = 0"
  "floorMul 1225337227 (1 + 1) = 0"
  by (simp_all add: floorMul_def toDouble_def)

lemma swaps_small:
  "[0, 0, 1, 1 :: int][3 := [0, 0, 1, 1] ! 2, 2 := [0, 0, 1, 1] ! 3] = [0, 0, 1, 1]"
  "[0, 0, 1, 1 :: int][2 := [0, 0, 1, 1] ! 0, 0 := [0, 0, 1, 1] ! 2] = [1, 0, 0, 1]"
  "[1, 0, 0, 1 :: int][1 := [1, 0, 0, 1] ! 0, 0 := [1, 0, 0, 1] ! 1] = [0, 1, 0, 1]"
  by (simp_all add: numeral_3_eq_3 numeral_2_eq_2)

lemma fisherYates_small: "fisherYates 3 [0, 0, 1, 1 :: int] 2 = ([0, 1, 0, 1], 5494697441)"
proof -
  have "fisherYates 3 [0, 0, 1, 1 :: int] 2 = fisherYates (3 - 1) [0, 0, 1, 1] 1831565815"
    by (rule fisherYates_step [OF _ rngNext_small(1) floorMul_small(1) swaps_small(1)]) simp
  also have "\<dots> = fisherYates 2 [0, 0, 1, 1] 1831565815" by simp
  also have "\<dots> = fisherYates (2 - 1) [1, 0, 0, 1] 3663131628"
    by (rule fisherYates_step [OF _ rngNext_small(2) floorMul_small(2) swaps_small(2)]) simp
  also have "\<dots> = fisherYates 1 [1, 0, 0, 1] 3663131628" by simp
  also have "\<dots> = fisherYates (1 - 1) [0, 1, 0, 1] 5494697441"
    by (rule fisherYates_step [OF _ rngNext_small(3) floorMul_small(3) swaps_small(3)]) simp
  also have "\<dots> = ([0, 1, 0, 1], 5494697441)" by (subst fisherYates.simps) simp
  finally show ?thesis .
qed

lemma small_puzzle:
  "createPuzzle rnd smallConfig
     = Inr \<lparr> tubes = [[0, 1], [0, 1], []], perColorTubesUsed = [1, 1], seedUsed = 2 \<rparr>"
proof -
  have solved: "buildSolved 2 2 [1, 1] = [[0, 0], [1, 1]]"
    by (simp add: buildSolved_def numeral_2_eq_2)
  have refill: "redistribute 2 2 [0, 1, 0, 1] = [[0, 1], [0, 1]]"
    by (simp add: redistribute_def numeral_2_eq_2 numeral_3_eq_3)
  have diverse: "colorDiversityMet 2 (redistribute 2 2 [0, 1, 0, 1])"
    by (simp add: refill colorDiversityMet_def)
  have shuffled: "fisherYates (length [0, 0, 1, 1 :: int] - 1) [0, 0, 1, 1 :: int] 2
                    = ([0, 1, 0, 1], 5494697441)"
    using fisherYates_small by (simp add: numeral_3_eq_3)
  have "shuffleLoop 2 2 2 0 [0, 0, 1, 1] 2 []
          = (redistribute 2 2 [0, 1, 0, 1], 0 + 1, 5494697441)"
    by (rule shuffleLoop_accept [OF _ shuffled diverse]) (simp add: maxShuffleAttempts_def)
  then have loop: "shuffleLoop 2 2 2 0 [0, 0, 1, 1] 2 [] = ([[0, 1], [0, 1]], 1, 5494697441)"
    by (simp add: refill)
  show ?thesis
    by (simp add: createPuzzle_def smallConfig_def chooseDistribution_def seededRng_def
        solved loop)
qed

lemma rngNext_example:
  "rngNext 42 = (1831565855, 2581720956)"
  "rngNext 1831565855 = (3663131668, 1925393290)"
  "rngNext 3663131668 = (5494697481, 3661312704)"
  by (simp_all add: rngNext_def toDouble_def)

lemma floorMul_example:
  "floorMul 2581720956 3 = 1" "floorMul 1925393290 3 = 1" "floorMul 3661312704 3 = 2"
  by (simp_all add: floorMul_def toDouble_def)

lemma distributeRemaining_example:
  "distributeRemaining 3 3 [1, 1, 1] 42 = ([1, 3, 2], 5494697481)"
  apply (subst distributeRemaining_unfold)
  apply (simp add: rngNext_example floorMul_example)
  apply (subst distributeRemaining_unfold)
  apply (simp add: rngNext_example floorMul_example)
  apply (subst distributeRemaining_unfold)
  apply (simp add: rngNext_example floorMul_example)
  apply (subst distributeRemaining_unfold)
  apply simp
  done

lemma example_accepted:
  "createPuzzle rnd exampleConfig = Inr (resultOf rnd exampleConfig [1, 3, 2] 5494697481)"
proof -
  have "chooseDistribution 3 6 None False 42 = Inr ([1, 3, 2], 5494697481)"
    by (simp add: chooseDistribution_def autoDistributeTubes_def distributeRemaining_example
        numeral_3_eq_3)
  moreover have "int (length (buildSolved 3 4 [1, 3, 2])) = 6"
    by (simp add: buildSolved_length)
  ultimately show ?thesis
    unfolding createPuzzle_Inr_iff
    by (simp add: exampleConfig_def allowZeroOf_def seededRng_def)
qed

lemma example_count:
  "count_list (concat (tubes (resultOf rnd exampleConfig [1, 3, 2] 5494697481))) c
     = (if c = 0 then 4 else if c = 1 then 12 else if c = 2 then 8 else 0)"
proof -
  have "c = 0 \<or> c = 1 \<or> c = 2 \<or> \<not> (0 \<le> c \<and> c < 3)" by arith
  then show ?thesis
    using count_list_shuffled [OF example_accepted, of rnd c]
    by (auto simp: exampleConfig_def)
qed

lemma singleBall_accepted:
  "createPuzzle rnd singleBallConfig = Inr (resultOf rnd singleBallConfig [1, 1, 1] 7)"
proof -
  have "int (length (buildSolved 3 1 [1, 1, 1])) = 3" by (simp add: buildSolved_length)
  then show ?thesis
    unfolding createPuzzle_Inr_iff
    by (simp add: singleBallConfig_def allowZeroOf_def seededRng_def chooseDistribution_def)
qed

lemma negativeEntryConfig_raises: "createPuzzle rnd negativeEntryConfig = Inl InternalMismatch"
proof -
  have "int (length (buildSolved 2 1 [3, - 1])) = 3" by (simp add: buildSolved_length)
  then show ?thesis
    by (simp add: createPuzzle_def negativeEntryConfig_def chooseDistribution_def Let_def)
qed

subsection \<open>The adapter\<close>

lemma adapter_ranges:
  "3 \<le> adapterColorCount config" "adapterColorCount config \<le> 12"
  "1 \<le> actualEmptyTubes config" "actualEmptyTubes config \<le> 6"
  "8 \<le> filledTubes config" "filledTubes config \<le> 13"
  "3 \<le> actualColorCount config" "actualColorCount config \<le> 12"
  "actualColorCount config \<le> filledTubes config"
  by (simp_all add: adapterColorCount_def actualEmptyTubes_def filledTubes_def
      actualColorCount_def TUBE_COUNT_def)

lemma jsRemainder_mod: "0 \<le> a \<Longrightarrow> 0 < b \<Longrightarrow> jsRemainder a b = a mod b"
  by (cases "a = 0") (simp_all add: jsRemainder_def)

lemma calculateColorDistribution_evenSplit:
  "0 \<le> filled \<Longrightarrow> 0 < colors \<Longrightarrow> calculateColorDistribution colors filled = evenSplit colors filled"
  by (simp add: calculateColorDistribution_def evenSplit_def jsRemainder_mod Let_def)

lemma sum_list_split:
  "0 \<le> e \<Longrightarrow>
     sum_list (map (\<lambda>i. q + (if int i < e then 1 else 0)) [0..<n]) = int n * q + min e (int n)"
  by (induction n) (auto simp: algebra_simps min_def)

lemma evenSplit_props:
  assumes "0 < colors" and "colors \<le> filled"
  shows "length (evenSplit colors filled) = nat colors"
    and "sum_list (evenSplit colors filled) = filled"
    and "\<forall>x \<in> set (evenSplit colors filled). 1 \<le> x"
proof -
  show "length (evenSplit colors filled) = nat colors" by (simp add: evenSplit_def)
  have e: "0 \<le> filled mod colors" "filled mod colors < colors" using assms(1) by simp_all
  have "sum_list (evenSplit colors filled)
          = int (nat colors) * (filled div colors) + min (filled mod colors) (int (nat colors))"
    unfolding evenSplit_def using e(1) by (rule sum_list_split)
  also have "\<dots> = colors * (filled div colors) + filled mod colors" using assms(1) e by simp
  finally show "sum_list (evenSplit colors filled) = filled" by simp
  have "1 \<le> filled div colors" using assms pos_imp_zdiv_pos_iff [of colors filled] by simp
  then show "\<forall>x \<in> set (evenSplit colors filled). 1 \<le> x" by (auto simp: evenSplit_def)
qed

lemma generatorConfig_accepted:
  "\<not> (claimedConfigError (generatorConfig config) \<or> negativeEntryAllowed (generatorConfig config))"
proof -
  let ?c = "actualColorCount config" and ?f = "filledTubes config"
  have pos: "0 < ?c" "?c \<le> ?f" "0 \<le> ?f" using adapter_ranges [of config] by simp_all
  have d: "calculateColorDistribution ?c ?f = evenSplit ?c ?f"
    using pos by (simp add: calculateColorDistribution_evenSplit)
  from evenSplit_props [OF pos(1,2)]
  have "int (length (evenSplit ?c ?f)) = ?c" "sum_list (evenSplit ?c ?f) = ?f"
    "\<not> list_ex (\<lambda>v. v \<le> 0) (evenSplit ?c ?f)"
    using pos by (auto simp: list_ex_iff)
  then show ?thesis
    using pos adapter_ranges [of config]
    by (simp add: claimedConfigError_def negativeEntryAllowed_def generatorConfig_def d
        allowZeroOf_def TUBE_CAPACITY_def)
qed

text \<open>
  The distribution that the adapter derives has \<open>actualColorCount\<close> entries, all at least 1,
  which add up to \<open>filledTubes\<close>, so the check at the end of
  \<^verbatim>\<open>calculateColorDistribution\<close> never reads the environment.
\<close>

lemma derived_distribution:
  "\<exists>dist. perColorTubes (generatorConfig config) = Some dist
        \<and> dist = calculateColorDistribution (actualColorCount config) (filledTubes config)
        \<and> length dist = nat (actualColorCount config)
        \<and> sum_list dist = filledTubes config
        \<and> list_all (\<lambda>v. 1 \<le> v) dist"
proof -
  let ?c = "actualColorCount config" and ?f = "filledTubes config"
  have pos: "0 < ?c" "?c \<le> ?f" "0 \<le> ?f" using adapter_ranges [of config] by simp_all
  have d: "calculateColorDistribution ?c ?f = evenSplit ?c ?f"
    using pos by (simp add: calculateColorDistribution_evenSplit)
  have "perColorTubes (generatorConfig config) = Some (evenSplit ?c ?f)"
    by (simp add: generatorConfig_def d)
  moreover from evenSplit_props [OF pos(1,2)]
  have "length (evenSplit ?c ?f) = nat ?c" "sum_list (evenSplit ?c ?f) = ?f"
    "list_all (\<lambda>v. 1 \<le> v) (evenSplit ?c ?f)"
    by (simp_all add: list_all_iff)
  ultimately show ?thesis using d by simp
qed

lemma checkedColorDistribution_adapter:
  "checkedColorDistribution env (actualColorCount config) (filledTubes config)
     = Inr (calculateColorDistribution (actualColorCount config) (filledTubes config))"
  using derived_distribution [of config] by (auto simp: checkedColorDistribution_def Let_def)

lemma generatorConfig_returns: "\<exists>r. createPuzzle rnd (generatorConfig config) = Inr r"
  using generatorConfig_accepted [of config] createPuzzle_Inr_ex [of rnd "generatorConfig config"]
  by blast

text \<open>
  With \<^verbatim>\<open>import.meta.env\<close> defined the adapter returns a result, whatever the value of
  \<^verbatim>\<open>DEV\<close>; with \<^verbatim>\<open>import.meta.env\<close> undefined it throws at its first read, before it calls
  \<^verbatim>\<open>createPuzzle\<close>.
\<close>

lemma adapter_returns_with_env: "\<exists>r. generatePuzzleWithAdapter (Some dev) rnd config = Inr r"
proof -
  obtain r where "createPuzzle rnd (generatorConfig config) = Inr r"
    using generatorConfig_returns by blast
  then show ?thesis
    by (simp add: generatePuzzleWithAdapter_def checkedColorDistribution_adapter readDEV_def
        Let_def)
qed

lemma adapter_throws_undefined_env: "generatePuzzleWithAdapter None rnd config = Inl TypeError"
  by (simp add: generatePuzzleWithAdapter_def checkedColorDistribution_adapter readDEV_def)

subsection \<open>The validation\<close>

lemma map_of_mapSet: "map_of (mapSet m k v) = (map_of m)(k \<mapsto> v)"
  by (induction m) (auto simp: fun_eq_iff)

lemma keys_mapSet: "fst ` set (mapSet m k v) = insert k (fst ` set m)"
proof (induction m)
  case Nil
  then show ?case by simp
next
  case (Cons a m)
  obtain k' v' where a: "a = (k', v')" by (cases a)
  show ?case
  proof (cases "k' = k")
    case True
    with a show ?thesis by simp
  next
    case False
    with a have "fst ` set (mapSet (a # m) k v) = insert k' (fst ` set (mapSet m k v))" by simp
    with Cons a show ?thesis by auto
  qed
qed

lemma distinct_mapSet: "distinct (map fst m) \<Longrightarrow> distinct (map fst (mapSet m k v))"
  by (induction m) (auto simp: keys_mapSet)

lemma distinct_countBalls: "distinct (map fst m) \<Longrightarrow> distinct (map fst (countBalls m xs))"
  by (induction xs arbitrary: m) (simp_all add: distinct_mapSet)

lemma map_of_countBalls:
  "map_of (countBalls m xs) c =
     (if count_list xs c = 0 then map_of m c
      else Some ((case map_of m c of None \<Rightarrow> 0 | Some n \<Rightarrow> n) + count_list xs c))"
  by (induction xs arbitrary: m) (auto simp: map_of_mapSet split: option.splits)

lemma countBalls_append: "countBalls m (xs @ ys) = countBalls (countBalls m xs) ys"
  by (induction xs arbitrary: m) simp_all

lemma countBalls_member:
  "(c, k) \<in> set (countBalls [] xs) \<longleftrightarrow> k = count_list xs c \<and> k \<noteq> 0"
proof -
  have "distinct (map fst (countBalls [] xs))" by (rule distinct_countBalls) simp
  then have "(c, k) \<in> set (countBalls [] xs) \<longleftrightarrow> map_of (countBalls [] xs) c = Some k"
    by simp
  then show ?thesis by (auto simp: map_of_countBalls)
qed

lemma scanTubes_eq:
  "scanTubes ts (errs, m, f, e) =
     (errs @ map TubeCapacityWrong (filter (\<lambda>l. l \<noteq> 0 \<and> l \<noteq> 8) (map length ts)),
      countBalls m (concat (filter (\<lambda>tube. length tube = 8) ts)),
      f + length (filter (\<lambda>tube. length tube = 8) ts),
      e + length (filter (\<lambda>tube. tube = []) ts))"
  by (induction ts arbitrary: errs m f e) (auto simp: countBalls_append TUBE_CAPACITY_def)

lemma validatePuzzle_errors:
  "errors (validatePuzzle ts) =
     (if length ts \<noteq> 14 then [TubeCountWrong (length ts)] else [])
     @ map TubeCapacityWrong (filter (\<lambda>l. l \<noteq> 0 \<and> l \<noteq> 8) (map length ts))
     @ (if length (filter (\<lambda>tube. tube = []) ts) \<noteq> 2
        then [EmptyTubeCountWrong (length (filter (\<lambda>tube. tube = []) ts))] else [])
     @ map (\<lambda>(color, count). ColorCountWrong color count)
         (filter (\<lambda>(color, count). count mod 8 \<noteq> 0)
            (countBalls [] (concat (filter (\<lambda>tube. length tube = 8) ts))))"
proof -
  have "int n mod 8 = int (n mod 8)" for n by (simp add: zmod_int)
  then show ?thesis
    by (simp add: validatePuzzle_def scanTubes_eq TUBE_COUNT_def TUBE_CAPACITY_def Let_def)
qed

lemma validatePuzzle_valid: "valid (validatePuzzle ts) \<longleftrightarrow> errors (validatePuzzle ts) = []"
  by (simp add: validatePuzzle_def Let_def split: prod.splits)

subsection \<open>The pregeneration promise\<close>

lemma waitForPregenerate_memo:
  assumes "pregeneratePromise s = Some p"
  shows "waitForPregenerate s = (Some p, s)"
  using assms by (simp add: waitForPregenerate_def)

lemma waitForPregenerate_first:
  assumes "pregeneratePromise s = None"
  shows "waitForPregenerate s = (Some (started s), pregeneratePuzzles s)"
  using assms by (simp add: waitForPregenerate_def pregeneratePuzzles_def Let_def)

lemma runEvents_memo:
  assumes "runEvents es s = (ps, s')" and "pregeneratePromise s = Some p"
    and "PregeneratePuzzles \<notin> set es"
  shows "pregeneratePromise s' = Some p \<and> started s' = started s \<and> set ps \<subseteq> {Some p}
       \<and> length ps = count_list es WaitForPregenerate"
  using assms
proof (induction es arbitrary: s ps)
  case Nil
  then show ?case by simp
next
  case (Cons e es)
  show ?case
  proof (cases e)
    case PregeneratePuzzles
    with Cons.prems(3) show ?thesis by simp
  next
    case WaitForPregenerate
    obtain qs where qs: "runEvents es s = (qs, s')" "ps = Some p # qs"
      using Cons.prems WaitForPregenerate
      by (auto simp: waitForPregenerate_memo split: prod.splits)
    from Cons.IH [OF qs(1) Cons.prems(2)] Cons.prems(3) qs(2) WaitForPregenerate
    show ?thesis by simp
  next
    case (Settle q)
    with Cons.prems have "runEvents es (s\<lparr>settled := settled s @ [q]\<rparr>) = (ps, s')" by simp
    from Cons.IH [OF this] Cons.prems(2,3) Settle show ?thesis by simp
  qed
qed

text \<open>
  Sequences without a direct call of \<^verbatim>\<open>pregeneratePuzzles()\<close>: every caller of
  \<^verbatim>\<open>waitForPregenerate()\<close> receives the stored promise, and the callers start the chain at
  most once: not at all when a promise was stored before, and once, by the first caller,
  otherwise.
\<close>

lemma waiters_share_promise:
  assumes "runEvents es s = (ps, s')" and "PregeneratePuzzles \<notin> set es"
  shows "started s' \<le> started s + 1
       \<and> list_all (\<lambda>p. p \<noteq> None \<and> p = pregeneratePromise s') ps
       \<and> length ps = count_list es WaitForPregenerate
       \<and> (pregeneratePromise s \<noteq> None \<longrightarrow>
            pregeneratePromise s' = pregeneratePromise s \<and> started s' = started s)
       \<and> (started s' = started s + 1 \<longleftrightarrow>
            pregeneratePromise s = None \<and> WaitForPregenerate \<in> set es)"
  using assms
proof (induction es arbitrary: s ps)
  case Nil
  then show ?case by simp
next
  case (Cons e es)
  show ?case
  proof (cases e)
    case PregeneratePuzzles
    with Cons.prems(2) show ?thesis by simp
  next
    case (Settle q)
    with Cons.prems have "runEvents es (s\<lparr>settled := settled s @ [q]\<rparr>) = (ps, s')" by simp
    from Cons.IH [OF this] Cons.prems(2) Settle show ?thesis by simp
  next
    case WaitForPregenerate
    show ?thesis
    proof (cases "pregeneratePromise s")
      case (Some p)
      from runEvents_memo [OF Cons.prems(1) Some Cons.prems(2)] Some show ?thesis
        by (auto simp: list_all_iff)
    next
      case None
      let ?s1 = "pregeneratePuzzles s"
      have p1: "pregeneratePromise ?s1 = Some (started s)" and st1: "started ?s1 = started s + 1"
        by (simp_all add: pregeneratePuzzles_def)
      obtain qs where qs: "runEvents es ?s1 = (qs, s')" "ps = Some (started s) # qs"
        using Cons.prems WaitForPregenerate None
        by (auto simp: waitForPregenerate_first split: prod.splits)
      from Cons.prems(2) have "PregeneratePuzzles \<notin> set es" by simp
      from runEvents_memo [OF qs(1) p1 this] st1 qs(2) None WaitForPregenerate show ?thesis
        by (auto simp: list_all_iff)
    qed
  qed
qed

lemma waiters_share_promise_example:
  "runEvents waitingEvents initialCacheState
     = ([Some 0, Some 0, Some 0], \<lparr> pregeneratePromise = Some 0, started = 1, settled = [0] \<rparr>)"
  by (simp add: waitingEvents_def initialCacheState_def waitForPregenerate_def
      pregeneratePuzzles_def)

section \<open>Properties\<close>

subsection \<open>Determinism\<close>

text \<open>
  C1. Determinism: with a fixed configuration that supplies a seed, a number or a string,
  \<^verbatim>\<open>createPuzzle\<close> returns the same result, error or puzzle with its tubes, its
  \<^verbatim>\<open>perColorTubes\<close> and its \<^verbatim>\<open>seedUsed\<close>, whatever \<^verbatim>\<open>Math.random\<close> would deliver.
\<close>

theorem createPuzzle_deterministic:
  assumes "seed config = Some s"
  shows "createPuzzle rnd config = createPuzzle rnd' config"
proof -
  have "makeSeedFrom rnd (Some s) = makeSeedFrom rnd' (Some s)" by (cases s) simp_all
  with assms show ?thesis by (simp add: createPuzzle_def)
qed

theorem createPuzzle_deterministic_witness:
  "seed exampleConfig = Some (SeedNumber (Finite 42))
   \<and> createPuzzle 0 exampleConfig = createPuzzle 4294967295 exampleConfig"
proof -
  have s: "seed exampleConfig = Some (SeedNumber (Finite 42))" by (simp add: exampleConfig_def)
  show ?thesis using s createPuzzle_deterministic [OF s, of 0 4294967295] by simp
qed

subsection \<open>Ball conservation\<close>

text \<open>
  C2. Ball conservation: when \<^verbatim>\<open>createPuzzle\<close> accepts a configuration, the lengths of all
  tubes of the result add up to \<^verbatim>\<open>tubeCount * tubeSize\<close>, which is also the sum of the returned
  \<^verbatim>\<open>perColorTubes\<close> times \<^verbatim>\<open>tubeSize\<close>.
\<close>

theorem ball_conservation:
  assumes "createPuzzle rnd config = Inr r"
  shows "int (sum_list (map length (tubes r))) = tubeCount config * tubeSize config
       \<and> tubeCount config * tubeSize config = sum_list (perColorTubesUsed r) * tubeSize config"
proof -
  from assms obtain d t1 k where pos: "0 < tubeSize config" "0 < tubeCount config"
    and d: "sum_list d = tubeCount config" "perColorTubesUsed r = d"
    and balls: "length (concat (buildSolved (colorCount config) (tubeSize config) d))
       = nat (tubeCount config) * nat (tubeSize config)"
    and t: "tubes r =
       redistribute (nat (tubeCount config)) (nat (tubeSize config))
         (fst (shufflePasses k (concat (buildSolved (colorCount config) (tubeSize config) d)) t1))
       @ replicate (nat (case emptyTubeCount config of None \<Rightarrow> 0 | Some n \<Rightarrow> n)) []"
    by (rule createPuzzle_accepted)
  let ?n = "nat (tubeCount config)" and ?s = "nat (tubeSize config)"
  let ?balls = "fst (shufflePasses k (concat (buildSolved (colorCount config) (tubeSize config) d)) t1)"
  have "sum_list (map length (tubes r)) = length (concat (tubes r))"
    by (simp add: length_concat)
  also have "concat (tubes r) = concat (redistribute ?n ?s ?balls)" by (simp add: t)
  also have "\<dots> = ?balls"
    by (rule concat_redistribute) (simp add: shufflePasses_length balls)
  also have "length ?balls = ?n * ?s" by (simp add: shufflePasses_length balls)
  finally have "int (sum_list (map length (tubes r))) = int ?n * int ?s" by simp
  with pos d show ?thesis by simp
qed

theorem ball_conservation_witness:
  "createPuzzle 0 smallConfig
     = Inr \<lparr> tubes = [[0, 1], [0, 1], []], perColorTubesUsed = [1, 1], seedUsed = 2 \<rparr>
   \<and> int (sum_list (map length [[0, 1], [0, 1], [] :: int list])) = 2 * 2
   \<and> (2 :: int) * 2 = sum_list [1, 1] * 2"
  using ball_conservation [OF small_puzzle [of 0]] small_puzzle [of 0]
  by (simp add: smallConfig_def)

subsection \<open>Per-color multiple invariant\<close>

text \<open>
  C3. Per-color multiple invariant: in the result of an accepted configuration every color
  that occurs is one of the indices below \<^verbatim>\<open>colorCount\<close>, and it occurs
  \<^verbatim>\<open>perColorTubes[color] * tubeSize\<close> times over all tubes, a multiple of \<^verbatim>\<open>tubeSize\<close>.
\<close>

theorem per_color_multiple:
  assumes "createPuzzle rnd config = Inr r" and "c \<in> set (concat (tubes r))"
  shows "0 \<le> c \<and> c < colorCount config
       \<and> int (count_list (concat (tubes r)) c) = perColorTubesUsed r ! nat c * tubeSize config
       \<and> tubeSize config dvd int (count_list (concat (tubes r)) c)"
proof -
  from assms(1) obtain d t1 k where pos: "0 < tubeSize config"
    and d: "length d = nat (colorCount config)" "\<forall>x \<in> set d. 0 \<le> x" "perColorTubesUsed r = d"
    by (rule createPuzzle_accepted)
  from assms(2) have "count_list (concat (tubes r)) c \<noteq> 0" by (simp add: count_list_0_iff)
  with count_list_shuffled [OF assms(1), of c]
  have c: "0 \<le> c" "c < colorCount config"
    and cnt: "count_list (concat (tubes r)) c = nat (d ! nat c) * nat (tubeSize config)"
    by (simp_all add: d split: if_splits)
  from c d have "d ! nat c \<in> set d" by simp
  with d have "0 \<le> d ! nat c" by blast
  with cnt pos have "int (count_list (concat (tubes r)) c) = d ! nat c * tubeSize config" by simp
  with c d show ?thesis by simp
qed

theorem per_color_multiple_witness:
  "createPuzzle 0 smallConfig
     = Inr \<lparr> tubes = [[0, 1], [0, 1], []], perColorTubesUsed = [1, 1], seedUsed = 2 \<rparr>
   \<and> 1 \<in> set (concat [[0, 1], [0, 1], [] :: int list])
   \<and> int (count_list (concat [[0, 1], [0, 1], [] :: int list]) 1) = [1, 1] ! nat 1 * 2
   \<and> (2 :: int) dvd int (count_list (concat [[0, 1], [0, 1], [] :: int list]) 1)"
  using per_color_multiple [OF small_puzzle [of 0], of 1] small_puzzle [of 0]
  by (simp add: smallConfig_def)

subsection \<open>Adapter parameter derivation\<close>

text \<open>
  C4. Adapter parameter derivation: \<^verbatim>\<open>generatePuzzleWithAdapter\<close> derives
  \<open>colorCount = clamp(difficulty + 2, 3, 12)\<close>, \<open>actualEmptyTubes = clamp(emptyTubeCount, 1, 6)\<close>
  with 2 for an absent \<^verbatim>\<open>emptyTubeCount\<close>, \<open>filledTubes = 14 - actualEmptyTubes\<close>,
  \<open>actualColorCount = min(colorCount, filledTubes)\<close>, and hands to the generator the even split
  of \<open>filledTubes\<close> over \<open>actualColorCount\<close> colors, the first \<open>filledTubes mod actualColorCount\<close>
  colors with one tube more. Difficulty 1 gives 3 colors, 10 gives 12, 15 gives 12 and 0
  gives 3.
\<close>

theorem adapter_derivation:
  "adapterColorCount config = clamp (difficulty config + 2) 3 12
   \<and> actualEmptyTubes config
       = clamp (case adapterEmptyTubeCount config of None \<Rightarrow> 2 | Some n \<Rightarrow> n) 1 6
   \<and> filledTubes config = 14 - actualEmptyTubes config
   \<and> actualColorCount config = min (adapterColorCount config) (filledTubes config)
   \<and> colorCount (generatorConfig config) = actualColorCount config
   \<and> tubeCount (generatorConfig config) = filledTubes config
   \<and> tubeSize (generatorConfig config) = 8
   \<and> emptyTubeCount (generatorConfig config) = Some (actualEmptyTubes config)
   \<and> perColorTubes (generatorConfig config)
       = Some (evenSplit (actualColorCount config) (filledTubes config))
   \<and> (difficulty config = 1 \<longrightarrow> adapterColorCount config = 3)
   \<and> (difficulty config = 10 \<longrightarrow> adapterColorCount config = 12)
   \<and> (difficulty config = 15 \<longrightarrow> adapterColorCount config = 12)
   \<and> (difficulty config = 0 \<longrightarrow> adapterColorCount config = 3)"
proof -
  have "0 < actualColorCount config" "0 \<le> filledTubes config"
    using adapter_ranges [of config] by simp_all
  then have "calculateColorDistribution (actualColorCount config) (filledTubes config)
               = evenSplit (actualColorCount config) (filledTubes config)"
    by (simp add: calculateColorDistribution_evenSplit)
  then show ?thesis
    by (simp add: adapterColorCount_def actualEmptyTubes_def filledTubes_def actualColorCount_def
        generatorConfig_def clamp_def TUBE_COUNT_def TUBE_CAPACITY_def)
qed

theorem adapter_derivation_witness:
  "adapterColorCount (adapterConfig 1 None) = 3
   \<and> adapterColorCount (adapterConfig 10 (Some 6)) = 12
   \<and> adapterColorCount (adapterConfig 15 None) = 12
   \<and> adapterColorCount (adapterConfig 0 None) = 3
   \<and> actualColorCount (adapterConfig 10 (Some 6)) = 8
   \<and> perColorTubes (generatorConfig (adapterConfig 10 (Some 0))) = Some (evenSplit 12 13)
   \<and> evenSplit 12 13 = [2, 1, 1, 1, 1, 1, 1, 1, 1, 1, 1, 1]"
proof -
  have "evenSplit 12 13 = [2, 1, 1, 1, 1, 1, 1, 1, 1, 1, 1, 1]"
    by (simp add: evenSplit_def upt_rec)
  then show ?thesis
    using adapter_derivation [of "adapterConfig 1 None"]
      adapter_derivation [of "adapterConfig 10 (Some 6)"]
      adapter_derivation [of "adapterConfig 15 None"]
      adapter_derivation [of "adapterConfig 0 None"]
      adapter_derivation [of "adapterConfig 10 (Some 0)"]
    by (simp add: adapterConfig_def clamp_def)
qed

subsection \<open>Validation\<close>

text \<open>
  C5. \<^verbatim>\<open>validatePuzzle\<close> returns \<^verbatim>\<open>valid = true\<close> exactly when it collected no error. It
  records an error for the number of tubes exactly when that number is not 14, an error for
  a length exactly when a tube has that length and it is neither 0 nor 8, an error for the
  number of empty tubes exactly when it is not 2, and an error for a color exactly when the
  number of its balls in the full tubes is not a multiple of 8. It is a total function:
  it returns a result for every array of tubes.
\<close>

theorem validatePuzzle_spec:
  "(valid (validatePuzzle ts) \<longleftrightarrow> errors (validatePuzzle ts) = [])
   \<and> (TubeCountWrong n \<in> set (errors (validatePuzzle ts)) \<longleftrightarrow> n = length ts \<and> n \<noteq> 14)
   \<and> (TubeCapacityWrong l \<in> set (errors (validatePuzzle ts)) \<longleftrightarrow>
        (\<exists>tube. tube \<in> set ts \<and> length tube = l) \<and> l \<noteq> 0 \<and> l \<noteq> 8)
   \<and> (EmptyTubeCountWrong e \<in> set (errors (validatePuzzle ts)) \<longleftrightarrow>
        e = length (filter (\<lambda>tube. tube = []) ts) \<and> e \<noteq> 2)
   \<and> (ColorCountWrong c k \<in> set (errors (validatePuzzle ts)) \<longleftrightarrow>
        k = count_list (concat (filter (\<lambda>tube. length tube = 8) ts)) c \<and> k mod 8 \<noteq> 0)
   \<and> (valid (validatePuzzle ts) \<longleftrightarrow>
        length ts = 14
      \<and> list_all (\<lambda>tube. length tube = 0 \<or> length tube = 8) ts
      \<and> length (filter (\<lambda>tube. tube = []) ts) = 2
      \<and> (\<forall>c. count_list (concat (filter (\<lambda>tube. length tube = 8) ts)) c mod 8 = 0))"
proof (intro conjI)
  let ?E = "errors (validatePuzzle ts)"
  let ?full = "concat (filter (\<lambda>tube. length tube = 8) ts)"
  show v: "valid (validatePuzzle ts) \<longleftrightarrow> ?E = []" by (rule validatePuzzle_valid)
  show a: "TubeCountWrong n \<in> set ?E \<longleftrightarrow> n = length ts \<and> n \<noteq> 14" for n
    by (auto simp: validatePuzzle_errors)
  show b: "TubeCapacityWrong l \<in> set ?E \<longleftrightarrow>
        (\<exists>tube. tube \<in> set ts \<and> length tube = l) \<and> l \<noteq> 0 \<and> l \<noteq> 8" for l
    by (auto simp: validatePuzzle_errors)
  show c: "EmptyTubeCountWrong e \<in> set ?E \<longleftrightarrow>
        e = length (filter (\<lambda>tube. tube = []) ts) \<and> e \<noteq> 2" for e
    by (auto simp: validatePuzzle_errors)
  show d: "ColorCountWrong c k \<in> set ?E \<longleftrightarrow> k = count_list ?full c \<and> k mod 8 \<noteq> 0" for c k
    by (auto simp: validatePuzzle_errors countBalls_member)
  have "?E = [] \<longleftrightarrow> (\<forall>x. x \<notin> set ?E)" by auto
  also have "\<dots> \<longleftrightarrow> (\<forall>n. TubeCountWrong n \<notin> set ?E) \<and> (\<forall>l. TubeCapacityWrong l \<notin> set ?E)
       \<and> (\<forall>e. EmptyTubeCountWrong e \<notin> set ?E) \<and> (\<forall>c k. ColorCountWrong c k \<notin> set ?E)"
    by (metis validationError.exhaust)
  also have "\<dots> \<longleftrightarrow> length ts = 14
      \<and> list_all (\<lambda>tube. length tube = 0 \<or> length tube = 8) ts
      \<and> length (filter (\<lambda>tube. tube = []) ts) = 2
      \<and> (\<forall>c. count_list ?full c mod 8 = 0)"
    unfolding a b c d by (auto simp: list_all_iff)
  finally show "valid (validatePuzzle ts) \<longleftrightarrow>
        length ts = 14
      \<and> list_all (\<lambda>tube. length tube = 0 \<or> length tube = 8) ts
      \<and> length (filter (\<lambda>tube. tube = []) ts) = 2
      \<and> (\<forall>c. count_list ?full c mod 8 = 0)"
    using v by simp
qed

theorem validatePuzzle_spec_witness:
  "valid (validatePuzzle solvedBoard) \<and> errors (validatePuzzle solvedBoard) = []
   \<and> \<not> valid (validatePuzzle singleBallBoard)
   \<and> TubeCountWrong 1 \<in> set (errors (validatePuzzle singleBallBoard))
   \<and> TubeCapacityWrong 1 \<in> set (errors (validatePuzzle singleBallBoard))
   \<and> EmptyTubeCountWrong 0 \<in> set (errors (validatePuzzle singleBallBoard))
   \<and> ColorCountWrong RED 1 \<notin> set (errors (validatePuzzle singleBallBoard))"
proof -
  have "length solvedBoard = 14"
    and "list_all (\<lambda>tube. length tube = 0 \<or> length tube = 8) solvedBoard"
    and "length (filter (\<lambda>tube. tube = []) solvedBoard) = 2"
    and "\<forall>c. count_list (concat (filter (\<lambda>tube. length tube = 8) solvedBoard)) c mod 8 = 0"
    by (simp_all add: solvedBoard_def list_all_iff count_list_concat_replicate)
  with validatePuzzle_spec [where ts = solvedBoard and n = 0 and l = 0 and e = 0
        and c = RED and k = 0]
  have "valid (validatePuzzle solvedBoard) \<and> errors (validatePuzzle solvedBoard) = []"
    by blast
  moreover have "\<not> valid (validatePuzzle singleBallBoard)
   \<and> TubeCountWrong 1 \<in> set (errors (validatePuzzle singleBallBoard))
   \<and> TubeCapacityWrong 1 \<in> set (errors (validatePuzzle singleBallBoard))
   \<and> EmptyTubeCountWrong 0 \<in> set (errors (validatePuzzle singleBallBoard))
   \<and> ColorCountWrong RED 1 \<notin> set (errors (validatePuzzle singleBallBoard))"
    using validatePuzzle_spec [where ts = singleBallBoard and n = 1 and l = 1 and e = 0
        and c = RED and k = 1]
    by (auto simp: singleBallBoard_def)
  ultimately show ?thesis by simp
qed

subsection \<open>Configuration errors\<close>

text \<open>
  C6. Claimed: \<^verbatim>\<open>createPuzzle\<close> raises exactly when a size is not positive, or an explicit
  \<^verbatim>\<open>perColorTubes\<close> has the wrong length, the wrong sum or an entry \<open>\<le> 0\<close> without
  \<^verbatim>\<open>allowZeroTubesForColor\<close>, or none is given and \<^verbatim>\<open>tubeCount < colorCount\<close> without
  \<^verbatim>\<open>allowZeroTubesForColor\<close>. The configuration \<open>negativeEntryConfig\<close> meets none of these
  and still raises: with \<^verbatim>\<open>allowZeroTubesForColor\<close> the entries \<open>[3, -1]\<close> pass the
  validation, three tubes are built instead of two, and the internal check of the number of
  tubes throws. All its numbers are small integers.
\<close>

theorem createPuzzle_raises_counterexample:
  "createPuzzle 0 negativeEntryConfig = Inl InternalMismatch
   \<and> \<not> claimedConfigError negativeEntryConfig"
  by (simp add: negativeEntryConfig_raises)
     (simp add: claimedConfigError_def negativeEntryConfig_def allowZeroOf_def)

text \<open>
  C6, amended. For a configuration whose numbers are integers and whose arrays stay within
  the largest length of an array (\<open>withinArrayLimits\<close>: \<^verbatim>\<open>colorCount\<close>, \<^verbatim>\<open>tubeSize\<close>,
  \<^verbatim>\<open>tubeCount * tubeSize\<close>, \<^verbatim>\<open>tubeCount + emptyTubeCount\<close> and the sum of the absolute values
  of the entries of an explicit \<^verbatim>\<open>perColorTubes\<close> are at most \<open>2 ^ 32 - 1\<close>),
  \<^verbatim>\<open>createPuzzle\<close> raises exactly when one of the claimed conditions holds or an explicit
  \<^verbatim>\<open>perColorTubes\<close> with a negative entry is supplied together with
  \<^verbatim>\<open>allowZeroTubesForColor\<close>; in all other cases it returns a result. The internal mismatch
  error is raised exactly in the added case. Nothing is stated about the other
  configurations: there the code has further ways to raise, which the integers and lists of
  this model do not show, as \<^verbatim>\<open>new Array(tubeSize)\<close> with \<^verbatim>\<open>tubeSize\<close> \<open>2 ^ 32\<close>, a
  \<^verbatim>\<open>RangeError\<close>, or the fractional entries \<open>[1.5, 2.5, 2]\<close>, for which seven tubes are built
  where six are expected.
\<close>

theorem createPuzzle_raises_iff:
  assumes "withinArrayLimits config"
  shows "((\<exists>e. createPuzzle rnd config = Inl e) \<longleftrightarrow>
            claimedConfigError config \<or> negativeEntryAllowed config)
       \<and> ((\<exists>r. createPuzzle rnd config = Inr r) \<longleftrightarrow>
            \<not> (claimedConfigError config \<or> negativeEntryAllowed config))
       \<and> (createPuzzle rnd config = Inl InternalMismatch \<longleftrightarrow>
            \<not> claimedConfigError config \<and> negativeEntryAllowed config)"
proof (intro conjI)
  show ret: "(\<exists>r. createPuzzle rnd config = Inr r) \<longleftrightarrow>
      \<not> (claimedConfigError config \<or> negativeEntryAllowed config)"
    by (rule createPuzzle_Inr_ex)
  have "(\<exists>e. createPuzzle rnd config = Inl e) \<longleftrightarrow> \<not> (\<exists>r. createPuzzle rnd config = Inr r)"
    by (cases "createPuzzle rnd config") simp_all
  with ret show raises: "(\<exists>e. createPuzzle rnd config = Inl e) \<longleftrightarrow>
      claimedConfigError config \<or> negativeEntryAllowed config"
    by simp
  let ?cd = "chooseDistribution (colorCount config) (tubeCount config) (perColorTubes config)
       (allowZeroOf config) (seededRng (makeSeedFrom rnd (seed config)))"
  show "createPuzzle rnd config = Inl InternalMismatch \<longleftrightarrow>
      \<not> claimedConfigError config \<and> negativeEntryAllowed config"
  proof
    assume mis: "createPuzzle rnd config = Inl InternalMismatch"
    then obtain d t1 where pos: "0 < tubeSize config" "0 < tubeCount config" "0 < colorCount config"
      and cd: "?cd = Inr (d, t1)"
      unfolding createPuzzle_mismatch_iff by blast
    from cd have "\<not> (\<exists>e. ?cd = Inl e)" by simp
    then have "\<not> claimedConfigError config"
      unfolding chooseDistribution_Inl using pos
      by (auto simp: claimedConfigError_def list_ex_iff split: option.splits)
    moreover from mis raises have "claimedConfigError config \<or> negativeEntryAllowed config"
      by blast
    ultimately show "\<not> claimedConfigError config \<and> negativeEntryAllowed config" by blast
  next
    assume a: "\<not> claimedConfigError config \<and> negativeEntryAllowed config"
    with raises obtain e where e: "createPuzzle rnd config = Inl e" by blast
    from a have pos: "0 < tubeSize config" "0 < tubeCount config" "0 < colorCount config"
      by (simp_all add: claimedConfigError_def)
    from a have "\<not> (\<exists>e. ?cd = Inl e)"
      unfolding chooseDistribution_Inl
      by (auto simp: claimedConfigError_def list_ex_iff split: option.splits)
    then have "e = InternalMismatch" using createPuzzle_Inl_cases [OF e] pos by auto
    with e show "createPuzzle rnd config = Inl InternalMismatch" by simp
  qed
qed

theorem createPuzzle_raises_iff_witness:
  "withinArrayLimits exampleConfig
   \<and> (\<exists>r. createPuzzle 0 exampleConfig = Inr r)
   \<and> \<not> (claimedConfigError exampleConfig \<or> negativeEntryAllowed exampleConfig)
   \<and> withinArrayLimits negativeEntryConfig
   \<and> createPuzzle 0 negativeEntryConfig = Inl InternalMismatch
   \<and> \<not> claimedConfigError negativeEntryConfig \<and> negativeEntryAllowed negativeEntryConfig"
proof -
  have lim: "withinArrayLimits exampleConfig" "withinArrayLimits negativeEntryConfig"
    by (simp_all add: withinArrayLimits_def arrayLimit_def exampleConfig_def
        negativeEntryConfig_def)
  have "\<not> (claimedConfigError exampleConfig \<or> negativeEntryAllowed exampleConfig)"
    by (simp add: claimedConfigError_def negativeEntryAllowed_def exampleConfig_def allowZeroOf_def)
  moreover have "\<not> claimedConfigError negativeEntryConfig \<and> negativeEntryAllowed negativeEntryConfig"
    by (simp add: claimedConfigError_def negativeEntryAllowed_def negativeEntryConfig_def
        allowZeroOf_def)
  ultimately show ?thesis
    using createPuzzle_raises_iff [OF lim(1), of 0]
      createPuzzle_raises_iff [OF lim(2), of 0] lim
    by simp
qed

subsection \<open>The concrete example\<close>

text \<open>
  C7. Claimed for \<^verbatim>\<open>createPuzzle({colorCount: 3, tubeCount: 6, tubeSize: 4, seed: 42,
  emptyTubeCount: 2})\<close>: eight tubes, six filled ones of length 4 followed by two empty ones,
  and exactly 6 occurrences of each of the colors 0, 1 and 2. The third part fails: the
  generator allots whole tubes of four balls to the colors, here \<open>[1, 3, 2]\<close> tubes, so color 0
  occurs 4 times.
\<close>

theorem example_counts_counterexample:
  "createPuzzle 0 exampleConfig = Inr (resultOf 0 exampleConfig [1, 3, 2] 5494697481)
   \<and> count_list (concat (tubes (resultOf 0 exampleConfig [1, 3, 2] 5494697481))) 0 = 4
   \<and> count_list (concat (tubes (resultOf 0 exampleConfig [1, 3, 2] 5494697481))) 0 \<noteq> 6"
  by (simp add: example_accepted example_count)

text \<open>
  C7, amended. The call returns eight tubes, six of length 4 followed by two of length 0;
  the colors that occur are 0, 1 and 2; \<^verbatim>\<open>perColorTubes\<close> is \<open>[1, 3, 2]\<close> and the colors occur
  4, 12 and 8 times, 24 balls in all; \<^verbatim>\<open>seedUsed\<close> is 42.
\<close>

theorem example_puzzle:
  "\<exists>r. createPuzzle rnd exampleConfig = Inr r
      \<and> map length (tubes r) = [4, 4, 4, 4, 4, 4, 0, 0]
      \<and> set (concat (tubes r)) = {0, 1, 2}
      \<and> perColorTubesUsed r = [1, 3, 2]
      \<and> count_list (concat (tubes r)) 0 = 4
      \<and> count_list (concat (tubes r)) 1 = 12
      \<and> count_list (concat (tubes r)) 2 = 8
      \<and> seedUsed r = 42"
proof -
  let ?r = "resultOf rnd exampleConfig [1, 3, 2] 5494697481"
  have acc: "createPuzzle rnd exampleConfig = Inr ?r" by (rule example_accepted)
  have "replicate (nat 6) (nat 4) @ replicate (nat 2) (0 :: nat) = [4, 4, 4, 4, 4, 4, 0, 0]"
    by (simp add: numeral_eq_Suc)
  then have len: "map length (tubes ?r) = [4, 4, 4, 4, 4, 4, 0, 0]"
    using map_length_tubes [OF acc] by (simp add: exampleConfig_def)
  have "x \<in> set (concat (tubes ?r)) \<longleftrightarrow> x \<in> {0, 1, 2}" for x
  proof -
    have "count_list (concat (tubes ?r)) x \<noteq> 0 \<longleftrightarrow> x \<in> {0, 1, 2}"
      by (simp add: example_count)
    with count_list_0_iff [of "concat (tubes ?r)" x] show ?thesis by blast
  qed
  then have colors: "set (concat (tubes ?r)) = {0, 1, 2}" by blast
  have "seedUsed ?r = 42" by (simp add: exampleConfig_def)
  with acc len colors show ?thesis by (simp add: example_count)
qed

subsection \<open>Bounded retry\<close>

text \<open>
  C8. Bounded retry with best-effort acceptance. The retry loop makes at least one and at
  most 100 attempts and returns the tubes of its last attempt, whether or not they pass the
  diversity test: the test holds when fewer than 100 attempts were made and failed at every
  earlier attempt. For every configuration that is not rejected before the shuffle,
  \<^verbatim>\<open>createPuzzle\<close> returns these tubes followed by the empty ones; an unmet diversity never
  makes it fail.
\<close>

theorem bounded_retry:
  "(\<exists>finalTubes attemptCount t'.
      shuffleLoop n s m 0 allBalls t [] = (finalTubes, attemptCount, t')
    \<and> 1 \<le> attemptCount \<and> attemptCount \<le> 100
    \<and> (finalTubes, t') =
         (redistribute n s (fst (shufflePasses attemptCount allBalls t)),
          snd (shufflePasses attemptCount allBalls t))
    \<and> (attemptCount < 100 \<longrightarrow> colorDiversityMet m finalTubes)
    \<and> (\<forall>j. 1 \<le> j \<and> j < attemptCount \<longrightarrow>
          \<not> colorDiversityMet m (redistribute n s (fst (shufflePasses j allBalls t)))))
   \<and> (\<not> (claimedConfigError config \<or> negativeEntryAllowed config) \<longrightarrow>
        (\<exists>d t1. chooseDistribution (colorCount config) (tubeCount config) (perColorTubes config)
                   (allowZeroOf config) (seededRng (makeSeedFrom rnd (seed config))) = Inr (d, t1)
               \<and> createPuzzle rnd config =
                   Inr \<lparr> tubes =
                           fst (shuffleLoop (nat (tubeCount config)) (nat (tubeSize config))
                                  (min 3 (colorCount config)) 0
                                  (concat (buildSolved (colorCount config) (tubeSize config) d))
                                  t1 [])
                           @ replicate
                               (nat (case emptyTubeCount config of None \<Rightarrow> 0 | Some n \<Rightarrow> n)) [],
                         perColorTubesUsed = d,
                         seedUsed = makeSeedFrom rnd (seed config) \<rparr>))"
proof (intro conjI impI)
  show "\<exists>finalTubes attemptCount t'.
      shuffleLoop n s m 0 allBalls t [] = (finalTubes, attemptCount, t')
    \<and> 1 \<le> attemptCount \<and> attemptCount \<le> 100
    \<and> (finalTubes, t') =
         (redistribute n s (fst (shufflePasses attemptCount allBalls t)),
          snd (shufflePasses attemptCount allBalls t))
    \<and> (attemptCount < 100 \<longrightarrow> colorDiversityMet m finalTubes)
    \<and> (\<forall>j. 1 \<le> j \<and> j < attemptCount \<longrightarrow>
          \<not> colorDiversityMet m (redistribute n s (fst (shufflePasses j allBalls t))))"
    by (rule shuffleLoop_zero [of n s m allBalls t]) blast
next
  assume "\<not> (claimedConfigError config \<or> negativeEntryAllowed config)"
  then obtain r where "createPuzzle rnd config = Inr r"
    using createPuzzle_Inr_ex [of rnd config] by blast
  then show "\<exists>d t1. chooseDistribution (colorCount config) (tubeCount config) (perColorTubes config)
                   (allowZeroOf config) (seededRng (makeSeedFrom rnd (seed config))) = Inr (d, t1)
               \<and> createPuzzle rnd config =
                   Inr \<lparr> tubes =
                           fst (shuffleLoop (nat (tubeCount config)) (nat (tubeSize config))
                                  (min 3 (colorCount config)) 0
                                  (concat (buildSolved (colorCount config) (tubeSize config) d))
                                  t1 [])
                           @ replicate
                               (nat (case emptyTubeCount config of None \<Rightarrow> 0 | Some n \<Rightarrow> n)) [],
                         perColorTubesUsed = d,
                         seedUsed = makeSeedFrom rnd (seed config) \<rparr>"
    unfolding createPuzzle_Inr_iff resultOf_def by blast
qed

theorem bounded_retry_witness:
  "\<not> (claimedConfigError singleBallConfig \<or> negativeEntryAllowed singleBallConfig)
   \<and> createPuzzle 0 singleBallConfig = Inr (resultOf 0 singleBallConfig [1, 1, 1] 7)
   \<and> length (tubes (resultOf 0 singleBallConfig [1, 1, 1] 7)) = 3
   \<and> \<not> colorDiversityMet 3 (tubes (resultOf 0 singleBallConfig [1, 1, 1] 7))
   \<and> fst (snd (shuffleLoop 3 1 3 0 (concat (buildSolved 3 1 [1, 1, 1])) 7 [])) = 100"
proof -
  let ?balls = "concat (buildSolved 3 1 [1, 1, 1])"
  let ?R = "shuffleLoop 3 1 3 0 ?balls 7 []"
  have ok: "\<not> (claimedConfigError singleBallConfig \<or> negativeEntryAllowed singleBallConfig)"
    by (simp add: claimedConfigError_def negativeEntryAllowed_def singleBallConfig_def
        allowZeroOf_def)
  from bounded_retry [of 3 1 3 ?balls 7 singleBallConfig 0]
  obtain ft k t' where R: "?R = (ft, k, t')" and k: "k \<le> 100"
    and ft: "(ft, t') = (redistribute 3 1 (fst (shufflePasses k ?balls 7)),
                         snd (shufflePasses k ?balls 7))"
    and diverse: "k < 100 \<longrightarrow> colorDiversityMet 3 ft"
    by blast
  from ft have len: "length ft = 3" by (simp add: length_redistribute)
  then have mem: "ft ! 0 \<in> set ft" by simp
  with ft have "length (ft ! 0) = 1" by (simp add: tube_length_redistribute)
  with mem have nd: "\<not> colorDiversityMet 3 ft" by (rule not_diverse_single) simp
  with diverse k have "k = 100" by simp
  moreover have "tubes (resultOf 0 singleBallConfig [1, 1, 1] 7) = fst ?R"
    by (simp add: resultOf_def singleBallConfig_def)
  ultimately show ?thesis using ok R len nd by (simp add: singleBall_accepted)
qed

subsection \<open>Adapter call safety\<close>

text \<open>
  C9. Adapter call safety, claimed: the configuration that the adapter derives passes the
  checks of \<^verbatim>\<open>createPuzzle\<close>, so \<^verbatim>\<open>generatePuzzleWithAdapter\<close> never throws. The first half
  holds (\<open>derived_distribution\<close>, \<open>generatorConfig_returns\<close>), and with \<^verbatim>\<open>import.meta.env\<close>
  defined the adapter returns (\<open>adapter_returns_with_env\<close>). The second half fails where
  \<^verbatim>\<open>import.meta.env\<close> is undefined: the first call of \<^verbatim>\<open>scripts/generate-puzzles.ts\<close>,
  \<^verbatim>\<open>generatePuzzleWithAdapter({ difficulty: 1, emptyTubeCount: 2 })\<close>, throws a \<^verbatim>\<open>TypeError\<close>
  at the read of \<^verbatim>\<open>import.meta.env.DEV\<close> that precedes the call of \<^verbatim>\<open>createPuzzle\<close>, although
  \<^verbatim>\<open>createPuzzle\<close> accepts the derived configuration. The generator and the puzzle cache
  guard the same read: \<^verbatim>\<open>import.meta.env?.DEV\<close>.
\<close>

theorem adapter_throws_without_env:
  "generatePuzzleWithAdapter None 0 scriptConfig = Inl TypeError
   \<and> (\<exists>r. createPuzzle 0 (generatorConfig scriptConfig) = Inr r)
   \<and> (\<exists>r. generatePuzzleWithAdapter (Some False) 0 scriptConfig = Inr r)"
  using adapter_throws_undefined_env [of 0 scriptConfig] generatorConfig_returns [of 0 scriptConfig]
    adapter_returns_with_env [of False 0 scriptConfig]
  by blast

subsection \<open>Single in-flight pregeneration\<close>

text \<open>
  C10. Single in-flight pregeneration, claimed: the callers that request the promise before
  the pregeneration completes all receive the same memoised promise, and the work is
  triggered at most once, never in parallel. \<^verbatim>\<open>waitForPregenerate()\<close> consults the memo
  (\<open>waiters_share_promise\<close>); the exported \<^verbatim>\<open>pregeneratePuzzles()\<close> does not, and the
  application calls it twice, in \<^verbatim>\<open>main.tsx\<close> and in the mount effect of \<^verbatim>\<open>App\<close>. At the
  start of the application, \<open>startupEvents\<close>, two chains are started before either settles and
  the stored promise is that of the second. When a caller has asked in between,
  \<open>restartEvents\<close>, the two callers hold different promises.
\<close>

theorem pregeneration_started_twice:
  "runEvents startupEvents initialCacheState
     = ([Some 1, Some 1], \<lparr> pregeneratePromise = Some 1, started = 2, settled = [] \<rparr>)
   \<and> runEvents restartEvents initialCacheState
     = ([Some 0, Some 1], \<lparr> pregeneratePromise = Some 1, started = 2, settled = [] \<rparr>)"
  by (simp add: startupEvents_def restartEvents_def initialCacheState_def waitForPregenerate_def
      pregeneratePuzzles_def)

end
